theory Spec2Isabelle
  imports Main "HOL-Library.Word"
begin

section \<open>Addresses, timestamps and the address set\<close>

text \<open>
  The pool of \<^verbatim>\<open>cmd/natc/ippool/consensusippool.go\<close> is keyed by node identifiers
  (\<^verbatim>\<open>tailcfg.NodeID\<close>, an int64 that is only ever compared), stamps entries with
  \<^verbatim>\<open>time.Time\<close> values (only compared with \<^verbatim>\<open>Before\<close> and \<^verbatim>\<open>After\<close>, so an instant
  is an integer) and hands out \<^verbatim>\<open>netip.Addr\<close> values.

  A \<^verbatim>\<open>netip.Addr\<close> is a 128-bit number with a family tag. The tag \<^verbatim>\<open>z0\<close> marks the
  invalid addresses (the zero \<^verbatim>\<open>Addr{}\<close> is \<open>Z0 0\<close>), \<^verbatim>\<open>z4\<close> an IPv4 address (its low 32
  bits vary, the rest is fixed) and \<^verbatim>\<open>z6noz\<close> an IPv6 address without zone; the ranges
  of a \<^verbatim>\<open>netipx.IPSet\<close> never carry zones.
\<close>

type_synonym NodeID = int
type_synonym Time = int
type_synonym bytes = "8 word list"

definition Before :: "Time \<Rightarrow> Time \<Rightarrow> bool" where
  "Before t u = (t < u)"

definition After :: "Time \<Rightarrow> Time \<Rightarrow> bool" where
  "After t u = (u < t)"

datatype Addr = Z0 "128 word" | V4 "32 word" | V6 "128 word"

fun IsValid :: "Addr \<Rightarrow> bool" where
  "IsValid (Z0 w) = False"
| "IsValid (V4 w) = True"
| "IsValid (V6 w) = True"

fun BitLen :: "Addr \<Rightarrow> nat" where
  "BitLen (Z0 w) = 0"
| "BitLen (V4 w) = 32"
| "BitLen (V6 w) = 128"

text \<open>
  \<^verbatim>\<open>Addr.Next\<close>: add one to the number; an IPv4 address whose low 32 bits wrapped to
  zero, and any other address whose 128 bits wrapped to zero, gives the zero \<^verbatim>\<open>Addr{}\<close>.
\<close>

fun Next :: "Addr \<Rightarrow> Addr" where
  "Next (V4 w) = (if w + 1 = 0 then Z0 0 else V4 (w + 1))"
| "Next (V6 w) = (if w + 1 = 0 then Z0 0 else V6 (w + 1))"
| "Next (Z0 w) = (if w + 1 = 0 then Z0 0 else Z0 (w + 1))"

text \<open>
  \<^verbatim>\<open>Addr.Compare\<close>: addresses sort first by bit length, then by their number; the
  result is -1, 0 or 1.
\<close>

fun cmpWord :: "'a::len word \<Rightarrow> 'a word \<Rightarrow> int" where
  "cmpWord v w = (if v < w then - 1 else if w < v then 1 else 0)"

fun Compare :: "Addr \<Rightarrow> Addr \<Rightarrow> int" where
  "Compare (Z0 v) (Z0 w) = cmpWord v w"
| "Compare (V4 v) (V4 w) = cmpWord v w"
| "Compare (V6 v) (V6 w) = cmpWord v w"
| "Compare ip ip2 = (if BitLen ip < BitLen ip2 then - 1 else 1)"

text \<open>
  A \<^verbatim>\<open>netipx.IPSet\<close> is read through \<^verbatim>\<open>Ranges()\<close> only: the list of its ranges, each
  with its \<^verbatim>\<open>From()\<close> and \<^verbatim>\<open>To()\<close> address.
\<close>

type_synonym IPRange = "Addr \<times> Addr"

datatype error = Error string

section \<open>The replicated state\<close>

record whereWhen =
  Domain' :: string
  LastUsed :: Time

record consensusPerPeerState =
  domainToAddr :: "string \<rightharpoonup> Addr"
  addrToDomain :: "Addr \<rightharpoonup> whereWhen"

record Command =
  Name :: string
  Args :: bytes

record CommandResult =
  Err :: "error option"
  Result :: bytes

text \<open>
  The pool: the address set, the per-peer states and the handle of the consensus
  engine (\<^verbatim>\<open>commandExecutor\<close>; \<open>None\<close> is the nil interface before \<^verbatim>\<open>StartConsensus\<close>).
  The per-peer map holds pointers, one fresh struct per peer and never shared, so a
  store through the pointer is an update of the map's entry.
\<close>

record ConsensusIPPool =
  IPSet :: "IPRange list"
  perPeerMap :: "NodeID \<rightharpoonup> consensusPerPeerState"
  consensus :: "(Command \<Rightarrow> error + CommandResult) option"

definition NewConsensusIPPool :: "IPRange list \<Rightarrow> ConsensusIPPool" where
  "NewConsensusIPPool ipSet = \<lparr>IPSet = ipSet, perPeerMap = Map.empty, consensus = None\<rparr>"

section \<open>The allocation scan\<close>

text \<open>
  The inner loop of \<^verbatim>\<open>unusedIPV4\<close> over one range: \<open>Some (Some r)\<close> is a return from the
  function with the candidate \<open>r\<close>, \<open>Some None\<close> the loop's exit with no candidate, and
  \<open>None\<close> a loop that never ends.
\<close>

partial_function (option) scanRange ::
  "(Addr \<rightharpoonup> whereWhen) \<Rightarrow> Time \<Rightarrow> Addr \<Rightarrow> Addr \<Rightarrow> (Addr \<times> bool \<times> string) option option" where
  "scanRange a2d reuseDeadline toIP ip =
     (if Compare toIP ip \<noteq> - 1 then
        (case a2d ip of
           None \<Rightarrow> Some (Some (ip, False, []))
         | Some ww \<Rightarrow>
             if Before (LastUsed ww) reuseDeadline then Some (Some (ip, True, Domain' ww))
             else scanRange a2d reuseDeadline toIP (Next ip))
      else Some None)"

fun scanRanges ::
  "(Addr \<rightharpoonup> whereWhen) \<Rightarrow> Time \<Rightarrow> IPRange list \<Rightarrow> (error + Addr \<times> bool \<times> string) option" where
  "scanRanges a2d reuseDeadline [] = Some (Inl (Error ''ip pool exhausted''))"
| "scanRanges a2d reuseDeadline ((ip, toIP) # rs) =
     (if \<not> IsValid ip \<or> \<not> IsValid toIP then scanRanges a2d reuseDeadline rs
      else
        (case scanRange a2d reuseDeadline toIP ip of
           None \<Rightarrow> None
         | Some (Some r) \<Rightarrow> Some (Inr r)
         | Some None \<Rightarrow> scanRanges a2d reuseDeadline rs))"

definition unusedIPV4 ::
  "consensusPerPeerState \<Rightarrow> IPRange list \<Rightarrow> Time \<Rightarrow> (error + Addr \<times> bool \<times> string) option" where
  "unusedIPV4 ps ipset reuseDeadline = scanRanges (addrToDomain ps) reuseDeadline ipset"

section \<open>The two state-machine commands\<close>

record markLastUsedArgs =
  mlu_NodeID :: NodeID
  mlu_Addr :: Addr
  mlu_Domain :: string
  mlu_UpdatedAt :: Time

record checkoutAddrArgs =
  co_NodeID :: NodeID
  co_Domain :: string
  co_ReuseDeadline :: Time
  co_UpdatedAt :: Time

text \<open>A store through the pointer the per-peer map holds for \<open>nid\<close>.\<close>

definition storePeer :: "ConsensusIPPool \<Rightarrow> NodeID \<Rightarrow> consensusPerPeerState \<Rightarrow> ConsensusIPPool" where
  "storePeer ipp nid ps = ipp\<lparr>perPeerMap := (perPeerMap ipp)(nid \<mapsto> ps)\<rparr>"

text \<open>
  \<^verbatim>\<open>applyMarkLastUsed\<close>: four guards that leave the state alone, then the overwrite of
  the timestamp. Its error result is always nil.
\<close>

definition applyMarkLastUsed ::
  "ConsensusIPPool \<Rightarrow> NodeID \<Rightarrow> Addr \<Rightarrow> string \<Rightarrow> Time \<Rightarrow> ConsensusIPPool \<times> error option" where
  "applyMarkLastUsed ipp from addr domain updatedAt =
     (case perPeerMap ipp from of
        None \<Rightarrow> (ipp, None)
      | Some ps \<Rightarrow>
          (case addrToDomain ps addr of
             None \<Rightarrow> (ipp, None)
           | Some ww \<Rightarrow>
               if Domain' ww \<noteq> domain then (ipp, None)
               else if After (LastUsed ww) updatedAt then (ipp, None)
               else
                 (storePeer ipp from
                    (ps\<lparr>addrToDomain := (addrToDomain ps)(addr \<mapsto> ww\<lparr>LastUsed := updatedAt\<rparr>)\<rparr>),
                  None)))"

text \<open>
  Lines 302 to 311 of \<^verbatim>\<open>applyCheckoutAddr\<close>: the scan, and the bookkeeping for the
  address it chose. \<^verbatim>\<open>mak.Set\<close> allocates the nil map of a fresh peer; a nil and an
  empty map read alike.
\<close>

definition allocateAddr ::
  "ConsensusIPPool \<Rightarrow> NodeID \<Rightarrow> consensusPerPeerState \<Rightarrow> string \<Rightarrow> Time \<Rightarrow> Time \<Rightarrow>
     (ConsensusIPPool \<times> (error + Addr)) option" where
  "allocateAddr ipp nid ps domain reuseDeadline updatedAt =
     (case unusedIPV4 ps (IPSet ipp) reuseDeadline of
        None \<Rightarrow> None
      | Some (Inl err) \<Rightarrow> Some (ipp, Inl err)
      | Some (Inr (addr, wasInUse, previousDomain)) \<Rightarrow>
          (let d2a = (domainToAddr ps)(domain \<mapsto> addr);
               d2a' = (if wasInUse then d2a(previousDomain := None) else d2a)
           in Some (storePeer ipp nid
                      \<lparr>domainToAddr = d2a',
                       addrToDomain = (addrToDomain ps)(addr \<mapsto> \<lparr>Domain' = domain, LastUsed = updatedAt\<rparr>)\<rparr>,
                    Inr addr)))"

definition emptyPeerState :: consensusPerPeerState where
  "emptyPeerState = \<lparr>domainToAddr = Map.empty, addrToDomain = Map.empty\<rparr>"

definition applyCheckoutAddr ::
  "ConsensusIPPool \<Rightarrow> NodeID \<Rightarrow> string \<Rightarrow> Time \<Rightarrow> Time \<Rightarrow> (ConsensusIPPool \<times> (error + Addr)) option" where
  "applyCheckoutAddr ipp nid domain reuseDeadline updatedAt =
     (let (ps, ipp1) =
            (case perPeerMap ipp nid of
               Some ps \<Rightarrow> (ps, ipp)
             | None \<Rightarrow> (emptyPeerState, storePeer ipp nid emptyPeerState))
      in case domainToAddr ps domain of
           Some existing \<Rightarrow>
             (case addrToDomain ps existing of
                Some ww \<Rightarrow>
                  Some (storePeer ipp1 nid
                          (ps\<lparr>addrToDomain := (addrToDomain ps)(existing \<mapsto> ww\<lparr>LastUsed := updatedAt\<rparr>)\<rparr>),
                        Inr existing)
              | None \<Rightarrow> allocateAddr ipp1 nid ps domain reuseDeadline updatedAt)
         | None \<Rightarrow> allocateAddr ipp1 nid ps domain reuseDeadline updatedAt)"

section \<open>The command dispatcher\<close>

text \<open>
  The JSON codec is the standard library's; the dispatcher is modelled for every
  codec. A Go call that may panic either \<open>Panics\<close> or \<open>Returns\<close>.
\<close>

record codec =
  unmarshalCommand :: "bytes \<Rightarrow> error + Command"
  unmarshalCheckoutAddrArgs :: "bytes \<Rightarrow> error + checkoutAddrArgs"
  unmarshalMarkLastUsedArgs :: "bytes \<Rightarrow> error + markLastUsedArgs"
  marshalAddr :: "Addr \<Rightarrow> error + bytes"
  marshalMarkLastUsedArgs :: "markLastUsedArgs \<Rightarrow> error + bytes"

datatype panicValue = PanicString string | PanicError error | NilDereference

datatype 'a exec = Panics panicValue | Returns 'a

fun errorText :: "error \<Rightarrow> string" where
  "errorText (Error msg) = msg"

definition executeMarkLastUsed :: "codec \<Rightarrow> ConsensusIPPool \<Rightarrow> bytes \<Rightarrow> ConsensusIPPool \<times> CommandResult" where
  "executeMarkLastUsed c ipp bs =
     (case unmarshalMarkLastUsedArgs c bs of
        Inl err \<Rightarrow> (ipp, \<lparr>Err = Some err, Result = []\<rparr>)
      | Inr args \<Rightarrow>
          (case applyMarkLastUsed ipp (mlu_NodeID args) (mlu_Addr args) (mlu_Domain args) (mlu_UpdatedAt args) of
             (ipp', Some err) \<Rightarrow> (ipp', \<lparr>Err = Some err, Result = []\<rparr>)
           | (ipp', None) \<Rightarrow> (ipp', \<lparr>Err = None, Result = []\<rparr>)))"

definition executeCheckoutAddr ::
  "codec \<Rightarrow> ConsensusIPPool \<Rightarrow> bytes \<Rightarrow> (ConsensusIPPool \<times> CommandResult) option" where
  "executeCheckoutAddr c ipp bs =
     (case unmarshalCheckoutAddrArgs c bs of
        Inl err \<Rightarrow> Some (ipp, \<lparr>Err = Some err, Result = []\<rparr>)
      | Inr args \<Rightarrow>
          (case applyCheckoutAddr ipp (co_NodeID args) (co_Domain args) (co_ReuseDeadline args) (co_UpdatedAt args) of
             None \<Rightarrow> None
           | Some (ipp', Inl err) \<Rightarrow> Some (ipp', \<lparr>Err = Some err, Result = []\<rparr>)
           | Some (ipp', Inr addr) \<Rightarrow>
               (case marshalAddr c addr of
                  Inl err \<Rightarrow> Some (ipp', \<lparr>Err = Some err, Result = []\<rparr>)
                | Inr resultBs \<Rightarrow> Some (ipp', \<lparr>Err = None, Result = resultBs\<rparr>))))"

text \<open>
  \<^verbatim>\<open>Apply\<close> reads the entry's \<^verbatim>\<open>Data\<close> only. \<open>None\<close> is an application that never
  returns (the scan ran forever).
\<close>

definition Apply :: "codec \<Rightarrow> ConsensusIPPool \<Rightarrow> bytes \<Rightarrow> (ConsensusIPPool \<times> CommandResult) exec option" where
  "Apply c ipp l =
     (case unmarshalCommand c l of
        Inl err \<Rightarrow> Some (Panics (PanicString (''failed to unmarshal command: '' @ errorText err)))
      | Inr cmd \<Rightarrow>
          if Name cmd = ''checkoutAddr'' then map_option Returns (executeCheckoutAddr c ipp (Args cmd))
          else if Name cmd = ''markLastUsed'' then Some (Returns (executeMarkLastUsed c ipp (Args cmd)))
          else Some (Panics (PanicString (''unrecognized command: '' @ Name cmd))))"

text \<open>
  The consensus engine hands the committed entries to \<^verbatim>\<open>Apply\<close> one at a time, in
  order; a panic ends the process, so no later entry is applied.
\<close>

fun replay :: "codec \<Rightarrow> ConsensusIPPool \<Rightarrow> bytes list \<Rightarrow> (ConsensusIPPool \<times> CommandResult list) exec option" where
  "replay c ipp [] = Some (Returns (ipp, []))"
| "replay c ipp (l # ls) =
     (case Apply c ipp l of
        None \<Rightarrow> None
      | Some (Panics p) \<Rightarrow> Some (Panics p)
      | Some (Returns (ipp', r)) \<Rightarrow>
          (case replay c ipp' ls of
             None \<Rightarrow> None
           | Some (Panics p) \<Rightarrow> Some (Panics p)
           | Some (Returns (ipp'', rs)) \<Rightarrow> Some (Returns (ipp'', r # rs))))"

section \<open>The reader\<close>

text \<open>
  The reader runs beside the dispatcher, so what it loads changes while it sleeps:
  a timeline gives the pool as the reader finds it \<open>t\<close> milliseconds after the call
  began. The result carries the sleeps made, in order, and the lines logged.
\<close>

type_synonym timeline = "int \<Rightarrow> ConsensusIPPool"

datatype logArg = ArgNode NodeID | ArgAddr Addr | ArgErr "error option"

type_synonym logLine = "string \<times> logArg"

function doubleLoop :: "int \<Rightarrow> int \<Rightarrow> int \<Rightarrow> int" where
  "doubleLoop i n timeToWait = (if i < n then doubleLoop (i + 1) n (timeToWait * 2) else timeToWait)"
  by pat_completeness auto
termination
  by (relation "measure (\<lambda>(i, n, t). nat (n - i))") auto

definition zeroWhereWhen :: whereWhen where
  "zeroWhereWhen = \<lparr>Domain' = [], LastUsed = 0\<rparr>"

function retryDomainLookup ::
  "timeline \<Rightarrow> int \<Rightarrow> NodeID \<Rightarrow> Addr \<Rightarrow> int \<Rightarrow> (whereWhen \<times> bool) \<times> int list \<times> logLine list" where
  "retryDomainLookup view clock from addr n =
     (case (case perPeerMap (view clock) from of
              None \<Rightarrow> None
            | Some ps \<Rightarrow> addrToDomain ps addr) of
        Some ww \<Rightarrow> ((ww, True), [], [])
      | None \<Rightarrow>
          if n > 4 then
            ((zeroWhereWhen, False), [],
             [case perPeerMap (view clock) from of
                None \<Rightarrow> (''DomainForIP: peer state absent for: %d'', ArgNode from)
              | Some ps \<Rightarrow> (''DomainForIP: peer state doesn't recognize addr: %s'', ArgAddr addr)])
          else
            (let timeToWait = doubleLoop 0 n 100
             in case retryDomainLookup view (clock + timeToWait) from addr (n + 1) of
                  (r, sleeps, logs) \<Rightarrow> (r, timeToWait # sleeps, logs)))"
  by pat_completeness auto
termination
  by (relation "measure (\<lambda>(view, clock, from, addr, n). nat (5 - n))") auto

text \<open>
  \<^verbatim>\<open>markLastUsed\<close> submits the refresh to the consensus engine and returns its error;
  calling through a nil \<^verbatim>\<open>consensus\<close> panics.
\<close>

definition markLastUsed ::
  "codec \<Rightarrow> ConsensusIPPool \<Rightarrow> NodeID \<Rightarrow> Addr \<Rightarrow> string \<Rightarrow> Time \<Rightarrow> (error option \<times> logLine list) exec" where
  "markLastUsed c ipp nid addr domain lastUsed =
     (case marshalMarkLastUsedArgs c
             \<lparr>mlu_NodeID = nid, mlu_Addr = addr, mlu_Domain = domain, mlu_UpdatedAt = lastUsed\<rparr> of
        Inl err \<Rightarrow> Returns (Some err, [])
      | Inr bs \<Rightarrow>
          (case consensus ipp of
             None \<Rightarrow> Panics NilDereference
           | Some ExecuteCommand \<Rightarrow>
               (case ExecuteCommand \<lparr>Name = ''markLastUsed'', Args = bs\<rparr> of
                  Inl err \<Rightarrow>
                    Returns (Some err, [(''markLastUsed: raft error executing command: %v'', ArgErr (Some err))])
                | Inr result \<Rightarrow>
                    (case Err result of
                       Some rerr \<Rightarrow>
                         Returns (Some rerr,
                                  [(''markLastUsed: error returned from state machine: %v'', ArgErr None)])
                     | None \<Rightarrow> Returns (None, [])))))"

text \<open>
  \<^verbatim>\<open>DomainForIP\<close> returns to its caller and leaves a goroutine behind. The model
  returns the caller's pair, the sleeps and log lines of the lookup, and the outcome
  of the goroutine when one was started: it panics with the error of \<^verbatim>\<open>markLastUsed\<close>.
\<close>

definition refreshGoroutine ::
  "codec \<Rightarrow> ConsensusIPPool \<Rightarrow> NodeID \<Rightarrow> Addr \<Rightarrow> string \<Rightarrow> Time \<Rightarrow> (logLine list) exec" where
  "refreshGoroutine c ipp from addr domain updatedAt =
     (case markLastUsed c ipp from addr domain updatedAt of
        Panics p \<Rightarrow> Panics p
      | Returns (Some err, logs) \<Rightarrow> Panics (PanicError err)
      | Returns (None, logs) \<Rightarrow> Returns logs)"

definition DomainForIP ::
  "codec \<Rightarrow> timeline \<Rightarrow> NodeID \<Rightarrow> Addr \<Rightarrow> Time \<Rightarrow>
     (string \<times> bool) \<times> int list \<times> logLine list \<times> (logLine list) exec option" where
  "DomainForIP c view from addr updatedAt =
     (case retryDomainLookup view 0 from addr 0 of
        ((ww, ok), sleeps, logs) \<Rightarrow>
          if \<not> ok then (([], False), sleeps, logs, None)
          else
            ((Domain' ww, True), sleeps, logs,
             Some (refreshGoroutine c (view (sum_list sleeps)) from addr (Domain' ww) updatedAt)))"

section \<open>Notions the properties are stated with\<close>

text \<open>
  An address is eligible for a peer when the peer has no entry for it or the entry's
  timestamp is before the reuse deadline; \<open>candidate\<close> is the triple the scan returns
  for an address it stops at.
\<close>

definition eligible :: "(Addr \<rightharpoonup> whereWhen) \<Rightarrow> Time \<Rightarrow> Addr \<Rightarrow> bool" where
  "eligible a2d dl ip = (case a2d ip of None \<Rightarrow> True | Some ww \<Rightarrow> Before (LastUsed ww) dl)"

definition candidate :: "(Addr \<rightharpoonup> whereWhen) \<Rightarrow> Addr \<Rightarrow> Addr \<times> bool \<times> string" where
  "candidate a2d ip = (case a2d ip of None \<Rightarrow> (ip, False, []) | Some ww \<Rightarrow> (ip, True, Domain' ww))"

definition candidateOK :: "(Addr \<rightharpoonup> whereWhen) \<Rightarrow> Time \<Rightarrow> Addr \<times> bool \<times> string \<Rightarrow> bool" where
  "candidateOK a2d dl r =
     (case r of (addr, used, prev) \<Rightarrow>
        (if used then (\<exists>ww. a2d addr = Some ww \<and> Domain' ww = prev \<and> Before (LastUsed ww) dl)
         else a2d addr = None \<and> prev = []))"

text \<open>
  The ranges \<^verbatim>\<open>netipx\<close> builds are valid: both ends of one family, the first not
  above the last. \<open>Contains\<close> is membership in such a range, and \<open>endsAtTop\<close> holds of a
  range whose last address is the last of its family, where \<^verbatim>\<open>Next\<close> wraps.
\<close>

fun validRange :: "IPRange \<Rightarrow> bool" where
  "validRange (V4 v, V4 w) = (v \<le> w)"
| "validRange (V6 v, V6 w) = (v \<le> w)"
| "validRange (ip, toIP) = False"

fun Contains :: "IPRange \<Rightarrow> Addr \<Rightarrow> bool" where
  "Contains (V4 v, V4 w) (V4 x) = (v \<le> x \<and> x \<le> w)"
| "Contains (V6 v, V6 w) (V6 x) = (v \<le> x \<and> x \<le> w)"
| "Contains (ip, toIP) a = False"

definition endsAtTop :: "IPRange \<Rightarrow> bool" where
  "endsAtTop r = (Next (snd r) = Z0 0)"

text \<open>
  The bijection between a peer's two maps, in both directions, and the pools that
  some sequence of the two commands reaches from a pool with no peers.
\<close>

definition peerBijection :: "consensusPerPeerState \<Rightarrow> bool" where
  "peerBijection ps \<longleftrightarrow>
     (\<forall>d a. domainToAddr ps d = Some a \<longrightarrow> (\<exists>ww. addrToDomain ps a = Some ww \<and> Domain' ww = d)) \<and>
     (\<forall>a ww. addrToDomain ps a = Some ww \<longrightarrow> domainToAddr ps (Domain' ww) = Some a)"

definition poolBijection :: "ConsensusIPPool \<Rightarrow> bool" where
  "poolBijection ipp \<longleftrightarrow> (\<forall>nid ps. perPeerMap ipp nid = Some ps \<longrightarrow> peerBijection ps)"

inductive reachable :: "ConsensusIPPool \<Rightarrow> bool" where
  init: "perPeerMap ipp = Map.empty \<Longrightarrow> reachable ipp"
| checkout: "reachable ipp \<Longrightarrow>
     applyCheckoutAddr ipp nid domain reuseDeadline updatedAt = Some (ipp', r) \<Longrightarrow> reachable ipp'"
| mark: "reachable ipp \<Longrightarrow>
     applyMarkLastUsed ipp from addr domain updatedAt = (ipp', e) \<Longrightarrow> reachable ipp'"

section \<open>Concrete pools\<close>

text \<open>
  A pool over the two addresses 0.0.0.1 and 0.0.0.2 with no peers, and the state of a
  peer that holds the first of them for one domain since time 10.
\<close>

definition demoPool :: ConsensusIPPool where
  "demoPool = NewConsensusIPPool [(V4 1, V4 2)]"

definition demoPeerA :: consensusPerPeerState where
  "demoPeerA = \<lparr>domainToAddr = [''a.example'' \<mapsto> V4 1],
                addrToDomain = [V4 1 \<mapsto> \<lparr>Domain' = ''a.example'', LastUsed = 10\<rparr>]\<rparr>"

text \<open>The pool in which peer 7 holds 0.0.0.1 for its one domain.\<close>

definition demoPoolA :: ConsensusIPPool where
  "demoPoolA = storePeer demoPool 7 demoPeerA"

text \<open>
  A pool over the empty address set, and a pool whose one peer has a forward entry
  pointing at an address that is recorded for another domain.
\<close>

definition emptySetPool :: ConsensusIPPool where
  "emptySetPool = NewConsensusIPPool []"

definition stalePeer :: consensusPerPeerState where
  "stalePeer = \<lparr>domainToAddr = [''a.example'' \<mapsto> V4 1],
                addrToDomain = [V4 1 \<mapsto> \<lparr>Domain' = ''b.example'', LastUsed = 100\<rparr>]\<rparr>"

definition stalePool :: ConsensusIPPool where
  "stalePool = \<lparr>IPSet = [(V4 1, V4 2)], perPeerMap = [7 \<mapsto> stalePeer], consensus = None\<rparr>"

text \<open>
  A small codec for concrete runs: the first byte of an entry selects the command
  name, two argument bytes give the node and the timestamp. And the pool without
  peers again, with a consensus handle that refuses every command.
\<close>

definition demoCodec :: codec where
  "demoCodec =
     \<lparr>unmarshalCommand =
        (\<lambda>bs. case bs of
                 [] \<Rightarrow> Inl (Error ''unexpected end of JSON input'')
               | b # rest \<Rightarrow>
                   Inr \<lparr>Name = (if b = 0 then ''checkoutAddr''
                                else if b = 1 then ''markLastUsed'' else ''compact''),
                        Args = rest\<rparr>),
      unmarshalCheckoutAddrArgs =
        (\<lambda>bs. case bs of
                 [n, t] \<Rightarrow> Inr \<lparr>co_NodeID = uint n, co_Domain = ''a.example'',
                                 co_ReuseDeadline = 0, co_UpdatedAt = uint t\<rparr>
               | _ \<Rightarrow> Inl (Error ''unexpected end of JSON input'')),
      unmarshalMarkLastUsedArgs =
        (\<lambda>bs. case bs of
                 [n, t] \<Rightarrow> Inr \<lparr>mlu_NodeID = uint n, mlu_Addr = V4 1, mlu_Domain = ''a.example'',
                                 mlu_UpdatedAt = uint t\<rparr>
               | _ \<Rightarrow> Inl (Error ''unexpected end of JSON input'')),
      marshalAddr = (\<lambda>a. Inr (case a of V4 w \<Rightarrow> [ucast w] | _ \<Rightarrow> [])),
      marshalMarkLastUsedArgs = (\<lambda>args. Inr [word_of_int (mlu_NodeID args), word_of_int (mlu_UpdatedAt args)])\<rparr>"


text \<open>
  What a reader finds for a peer and an address at a time of a timeline; a timeline on
  which peer 7 gets its address only 3100 milliseconds after the call; and the pool of
  peer 7 with a consensus handle that refuses every command.
\<close>

definition visible :: "timeline \<Rightarrow> int \<Rightarrow> NodeID \<Rightarrow> Addr \<Rightarrow> whereWhen option" where
  "visible view t from addr =
     (case perPeerMap (view t) from of None \<Rightarrow> None | Some ps \<Rightarrow> addrToDomain ps addr)"

definition lateView :: timeline where
  "lateView t = (if t < 3100 then demoPool else demoPoolA)"

definition demoPoolALed :: ConsensusIPPool where
  "demoPoolALed = demoPoolA\<lparr>consensus := Some (\<lambda>cmd. Inl (Error ''leadership lost''))\<rparr>"

text \<open>
  Peer 7 with both addresses of the pool taken, the first one long ago; and a pool over
  the single address 255.255.255.255, which its peer holds.
\<close>

definition demoPeerAB :: consensusPerPeerState where
  "demoPeerAB = \<lparr>domainToAddr = [''a.example'' \<mapsto> V4 1, ''b.example'' \<mapsto> V4 2],
                 addrToDomain = [V4 1 \<mapsto> \<lparr>Domain' = ''a.example'', LastUsed = 10\<rparr>,
                                 V4 2 \<mapsto> \<lparr>Domain' = ''b.example'', LastUsed = 100\<rparr>]\<rparr>"

definition demoPoolAB :: ConsensusIPPool where
  "demoPoolAB = storePeer demoPool 7 demoPeerAB"

definition topPeer :: consensusPerPeerState where
  "topPeer = \<lparr>domainToAddr = [''x.example'' \<mapsto> V4 0xFFFFFFFF],
              addrToDomain = [V4 0xFFFFFFFF \<mapsto> \<lparr>Domain' = ''x.example'', LastUsed = 100\<rparr>]\<rparr>"

definition topPool :: ConsensusIPPool where
  "topPool = \<lparr>IPSet = [(V4 0xFFFFFFFF, V4 0xFFFFFFFF)], perPeerMap = [7 \<mapsto> topPeer], consensus = None\<rparr>"

text \<open>
  Ranges in ascending order, each wholly below the next, as \<^verbatim>\<open>netipx\<close> keeps them; and
  the order of \<^verbatim>\<open>Compare\<close> as a number.
\<close>

fun ascending :: "IPRange list \<Rightarrow> bool" where
  "ascending [] = True"
| "ascending [r] = True"
| "ascending (r # r' # rs) = (Compare (snd r) (fst r') = - 1 \<and> ascending (r' # rs))"

fun addrKey :: "Addr \<Rightarrow> nat" where
  "addrKey (Z0 w) = unat w"
| "addrKey (V4 w) = 2 ^ 128 + unat w"
| "addrKey (V6 w) = 2 * 2 ^ 128 + unat w"







text \<open>
  The pool of peer 7 with a consensus handle that commits every command with an error
  result, one that commits every command, and a codec that cannot encode the refresh.
\<close>

definition demoPoolAFailing :: ConsensusIPPool where
  "demoPoolAFailing =
     demoPoolA\<lparr>consensus := Some (\<lambda>cmd. Inr \<lparr>Err = Some (Error ''ip pool exhausted''), Result = []\<rparr>)\<rparr>"

definition demoPoolAOk :: ConsensusIPPool where
  "demoPoolAOk = demoPoolA\<lparr>consensus := Some (\<lambda>cmd. Inr \<lparr>Err = None, Result = []\<rparr>)\<rparr>"

definition failingMarshal :: codec where
  "failingMarshal = demoCodec\<lparr>marshalMarkLastUsedArgs := (\<lambda>args. Inl (Error ''json: unsupported value''))\<rparr>"

section \<open>Properties of the allocation scan\<close>

lemma scanRange_pick_aux:
  assumes "scanRange a2d dl toIP ip = Some y"
  shows "\<forall>r. y = Some r \<longrightarrow> candidateOK a2d dl r"
proof (rule scanRange.raw_induct[OF _ assms])
  fix f a2d dl toIP ip y
  assume IH: "\<And>a2d dl toIP ip y. f a2d dl toIP ip = Some y \<Longrightarrow> \<forall>r. y = Some r \<longrightarrow> candidateOK a2d dl r"
    and eq: "(if Compare toIP ip \<noteq> - 1 then
        (case a2d ip of
           None \<Rightarrow> Some (Some (ip, False, []))
         | Some ww \<Rightarrow>
             if Before (LastUsed ww) dl then Some (Some (ip, True, Domain' ww))
             else f a2d dl toIP (Next ip))
      else Some None) = Some y"
  show "\<forall>r. y = Some r \<longrightarrow> candidateOK a2d dl r"
  proof (cases "Compare toIP ip \<noteq> - 1")
    case False
    with eq show ?thesis by auto
  next
    case True
    show ?thesis
    proof (cases "a2d ip")
      case None
      with True eq show ?thesis by (auto simp: candidateOK_def)
    next
      case (Some ww)
      show ?thesis
      proof (cases "Before (LastUsed ww) dl")
        case True
        with \<open>Compare toIP ip \<noteq> - 1\<close> Some eq show ?thesis by (auto simp: candidateOK_def)
      next
        case False
        with \<open>Compare toIP ip \<noteq> - 1\<close> Some eq
        have "f a2d dl toIP (Next ip) = Some y" by simp
        then show ?thesis by (rule IH)
      qed
    qed
  qed
qed

lemma scanRange_pick:
  "scanRange a2d dl toIP ip = Some (Some r) \<Longrightarrow> candidateOK a2d dl r"
  using scanRange_pick_aux[of a2d dl toIP ip "Some r"] by simp

lemma scanRanges_pick:
  "scanRanges a2d dl rs = Some (Inr r) \<Longrightarrow> candidateOK a2d dl r"
proof (induction rs)
  case Nil
  then show ?case by simp
next
  case (Cons rg rs)
  obtain ip toIP where rg: "rg = (ip, toIP)" by (cases rg)
  show ?case
  proof (cases "\<not> IsValid ip \<or> \<not> IsValid toIP")
    case True
    with Cons rg show ?thesis by simp
  next
    case False
    show ?thesis
    proof (cases "scanRange a2d dl toIP ip")
      case None
      with Cons.prems rg False show ?thesis by simp
    next
      case (Some res)
      show ?thesis
      proof (cases res)
        case None
        with Some Cons rg False show ?thesis by simp
      next
        case (Some found)
        with \<open>scanRange a2d dl toIP ip = Some res\<close> Cons.prems rg False
        have "scanRange a2d dl toIP ip = Some (Some r)" by simp
        then show ?thesis by (rule scanRange_pick)
      qed
    qed
  qed
qed

lemma word_succ_nonzero: "(v::'a::len word) < x \<Longrightarrow> v + 1 \<noteq> 0"
  by (metis add.commute neg_eq_iff_add_eq_0 word_order.extremum_strict)

lemma word_succ_unat: "(v::'a::len word) + 1 \<noteq> 0 \<Longrightarrow> unat (v + 1) = Suc (unat v)"
  by (metis unatSuc add.commute)

lemma word_succ_greater: "(v::'a::len word) + 1 \<noteq> 0 \<Longrightarrow> v < v + 1"
  by (metis add.commute add.right_inverse inc_less_eq_self_iff_eq verit_comp_simplify1(3))

lemma word_succ_le: "(v::'a::len word) < x \<Longrightarrow> (v + 1 \<le> w) = (v < w)"
  by (metis inc_le interval_class.inc_less_eq_imp_less)

lemma cmpWord_less: "(cmpWord t x = - 1) = (t < x)"
  by auto

lemma cmpWord_not_less: "(cmpWord t x \<noteq> - 1) = (x \<le> t)"
  by auto

lemma scanRange_stop:
  "eligible a2d dl ip \<Longrightarrow> Compare toIP ip \<noteq> - 1 \<Longrightarrow>
     scanRange a2d dl toIP ip = Some (Some (candidate a2d ip))"
  by (subst scanRange.simps) (simp add: eligible_def candidate_def split: option.splits)

lemma scanRange_step:
  "\<not> eligible a2d dl ip \<Longrightarrow> Compare toIP ip \<noteq> - 1 \<Longrightarrow>
     scanRange a2d dl toIP ip = scanRange a2d dl toIP (Next ip)"
  by (subst scanRange.simps) (simp add: eligible_def split: option.splits)

lemma scanRange_past:
  "Compare toIP ip = - 1 \<Longrightarrow> scanRange a2d dl toIP ip = Some None"
  by (subst scanRange.simps) simp

lemma scanRange_hit_gen:
  fixes C :: "'a::len word \<Rightarrow> Addr"
  assumes N: "\<And>w. Next (C w) = (if w + 1 = 0 then Z0 0 else C (w + 1))"
    and Cmp: "\<And>t w. Compare (C t) (C w) = cmpWord t w"
  shows "v \<le> x \<Longrightarrow> x \<le> t \<Longrightarrow> eligible a2d dl (C x) \<Longrightarrow>
         (\<forall>w. v \<le> w \<and> w < x \<longrightarrow> \<not> eligible a2d dl (C w)) \<Longrightarrow>
         scanRange a2d dl (C t) (C v) = Some (Some (candidate a2d (C x)))"
proof (induction "unat x - unat v" arbitrary: v)
  case 0
  then have "v = x" by (simp add: word_le_nat_alt word_unat_eq_iff)
  moreover have "Compare (C t) (C x) \<noteq> - 1"
    using \<open>x \<le> t\<close> unfolding Cmp cmpWord_not_less .
  ultimately show ?case using 0 by (simp add: scanRange_stop)
next
  case (Suc n)
  then have lt: "v < x" by (simp add: word_less_nat_alt)
  with Suc.prems have inel: "\<not> eligible a2d dl (C v)" by simp
  from lt Suc.prems have "v \<le> t" by simp
  then have cmp: "Compare (C t) (C v) \<noteq> - 1" unfolding Cmp cmpWord_not_less .
  from lt have nz: "v + 1 \<noteq> 0" by (rule word_succ_nonzero)
  have "scanRange a2d dl (C t) (C v) = scanRange a2d dl (C t) (C (v + 1))"
    using scanRange_step[OF inel cmp] nz by (simp add: N)
  also have "\<dots> = Some (Some (candidate a2d (C x)))"
  proof (rule Suc.hyps(1))
    show "n = unat x - unat (v + 1)" using Suc.hyps(2) by (simp add: word_succ_unat[OF nz])
    show "v + 1 \<le> x" using lt by (simp add: word_succ_le[OF lt])
    show "x \<le> t" by fact
    show "eligible a2d dl (C x)" by fact
    show "\<forall>w. v + 1 \<le> w \<and> w < x \<longrightarrow> \<not> eligible a2d dl (C w)"
      using Suc.prems(4) lt by (auto simp: word_succ_le[OF lt])
  qed
  finally show ?case .
qed

lemma scanRange_miss_gen:
  fixes C :: "'a::len word \<Rightarrow> Addr"
  assumes N: "\<And>w. Next (C w) = (if w + 1 = 0 then Z0 0 else C (w + 1))"
    and Cmp: "\<And>t w. Compare (C t) (C w) = cmpWord t w"
  shows "v \<le> t \<Longrightarrow> t + 1 \<noteq> 0 \<Longrightarrow>
         (\<forall>w. v \<le> w \<and> w \<le> t \<longrightarrow> \<not> eligible a2d dl (C w)) \<Longrightarrow>
         scanRange a2d dl (C t) (C v) = Some None"
proof (induction "unat t - unat v" arbitrary: v)
  case 0
  then have "v = t" by (simp add: word_le_nat_alt word_unat_eq_iff)
  with 0 have inel: "\<not> eligible a2d dl (C t)" by simp
  have cmp: "Compare (C t) (C t) \<noteq> - 1" unfolding Cmp cmpWord_not_less by simp
  have "scanRange a2d dl (C t) (C t) = scanRange a2d dl (C t) (C (t + 1))"
    using scanRange_step[OF inel cmp] 0 by (simp add: N)
  also have "\<dots> = Some None"
    using word_succ_greater[OF \<open>t + 1 \<noteq> 0\<close>] by (intro scanRange_past) (simp only: Cmp cmpWord_less)
  finally show ?case using \<open>v = t\<close> by simp
next
  case (Suc n)
  then have lt: "v < t" by (simp add: word_less_nat_alt)
  with Suc.prems have inel: "\<not> eligible a2d dl (C v)" by simp
  have cmp: "Compare (C t) (C v) \<noteq> - 1" using lt unfolding Cmp cmpWord_not_less by simp
  from lt have nz: "v + 1 \<noteq> 0" by (rule word_succ_nonzero)
  have "scanRange a2d dl (C t) (C v) = scanRange a2d dl (C t) (C (v + 1))"
    using scanRange_step[OF inel cmp] nz by (simp add: N)
  also have "\<dots> = Some None"
  proof (rule Suc.hyps(1))
    show "n = unat t - unat (v + 1)" using Suc.hyps(2) by (simp add: word_succ_unat[OF nz])
    show "v + 1 \<le> t" using lt by (simp add: word_succ_le[OF lt])
    show "t + 1 \<noteq> 0" by fact
    show "\<forall>w. v + 1 \<le> w \<and> w \<le> t \<longrightarrow> \<not> eligible a2d dl (C w)"
      using Suc.prems(3) lt by (auto simp: word_succ_le[OF lt])
  qed
  finally show ?case .
qed


lemma validRange_cases:
  assumes "validRange (f, t)"
  obtains (v4) v w where "f = V4 v" "t = V4 w" "v \<le> w"
        | (v6) v w where "f = V6 v" "t = V6 w" "v \<le> w"
  using assms by (cases f; cases t) auto

lemma validRange_IsValid: "validRange (f, t) \<Longrightarrow> IsValid f \<and> IsValid t"
  by (cases f; cases t) auto

lemma scanRange_hit:
  assumes valid: "validRange (f, t)"
    and x: "Contains (f, t) x" "eligible a2d dl x"
    and before: "\<forall>a. Contains (f, t) a \<and> Compare a x = - 1 \<longrightarrow> \<not> eligible a2d dl a"
  shows "scanRange a2d dl t f = Some (Some (candidate a2d x))"
  using valid
proof (cases rule: validRange_cases)
  case (v4 v w)
  with x(1) obtain y where y: "x = V4 y" "v \<le> y" "y \<le> w" by (cases x) auto
  have "\<forall>u. v \<le> u \<and> u < y \<longrightarrow> \<not> eligible a2d dl (V4 u)"
  proof (intro allI impI)
    fix u assume u: "v \<le> u \<and> u < y"
    with y v4 have "Contains (f, t) (V4 u)" by auto
    moreover from u y have "Compare (V4 u) x = - 1" by simp
    ultimately show "\<not> eligible a2d dl (V4 u)" using before by blast
  qed
  with y x(2) show ?thesis
    unfolding v4 y(1) by (intro scanRange_hit_gen) simp_all
next
  case (v6 v w)
  with x(1) obtain y where y: "x = V6 y" "v \<le> y" "y \<le> w" by (cases x) auto
  have "\<forall>u. v \<le> u \<and> u < y \<longrightarrow> \<not> eligible a2d dl (V6 u)"
  proof (intro allI impI)
    fix u assume u: "v \<le> u \<and> u < y"
    with y v6 have "Contains (f, t) (V6 u)" by auto
    moreover from u y have "Compare (V6 u) x = - 1" by simp
    ultimately show "\<not> eligible a2d dl (V6 u)" using before by blast
  qed
  with y x(2) show ?thesis
    unfolding v6 y(1) by (intro scanRange_hit_gen) simp_all
qed

lemma scanRange_miss:
  assumes valid: "validRange (f, t)"
    and top: "\<not> endsAtTop (f, t)"
    and none: "\<forall>a. Contains (f, t) a \<longrightarrow> \<not> eligible a2d dl a"
  shows "scanRange a2d dl t f = Some None"
  using valid
proof (cases rule: validRange_cases)
  case (v4 v w)
  from top v4 have "w + 1 \<noteq> 0" by (auto simp: endsAtTop_def split: if_splits)
  moreover from none v4 have "\<forall>u. v \<le> u \<and> u \<le> w \<longrightarrow> \<not> eligible a2d dl (V4 u)" by simp
  ultimately show ?thesis
    using v4(3) unfolding v4 by (intro scanRange_miss_gen) simp_all
next
  case (v6 v w)
  from top v6 have "w + 1 \<noteq> 0" by (auto simp: endsAtTop_def split: if_splits)
  moreover from none v6 have "\<forall>u. v \<le> u \<and> u \<le> w \<longrightarrow> \<not> eligible a2d dl (V6 u)" by simp
  ultimately show ?thesis
    using v6(3) unfolding v6 by (intro scanRange_miss_gen) simp_all
qed

lemma scanRanges_miss:
  assumes "\<forall>r\<in>set rs. validRange r \<and> \<not> endsAtTop r \<and> (\<forall>a. Contains r a \<longrightarrow> \<not> eligible a2d dl a)"
  shows "scanRanges a2d dl rs = Some (Inl (Error ''ip pool exhausted''))"
  using assms
proof (induction rs)
  case Nil
  show ?case by simp
next
  case (Cons r rs)
  obtain f t where r: "r = (f, t)" by (cases r)
  from Cons.prems r have "scanRange a2d dl t f = Some None"
    by (intro scanRange_miss) simp_all
  moreover from Cons.prems r have "IsValid f \<and> IsValid t"
    by (intro validRange_IsValid) simp
  ultimately show ?case using Cons r by simp
qed

lemma scanRanges_hit:
  assumes pre: "\<forall>r\<in>set pre. validRange r \<and> \<not> endsAtTop r \<and> (\<forall>a. Contains r a \<longrightarrow> \<not> eligible a2d dl a)"
    and valid: "validRange r"
    and x: "Contains r x" "eligible a2d dl x"
    and before: "\<forall>a. Contains r a \<and> Compare a x = - 1 \<longrightarrow> \<not> eligible a2d dl a"
  shows "scanRanges a2d dl (pre @ r # post) = Some (Inr (candidate a2d x))"
  using pre
proof (induction pre)
  case Nil
  obtain f t where r: "r = (f, t)" by (cases r)
  from valid x before r have "scanRange a2d dl t f = Some (Some (candidate a2d x))"
    by (intro scanRange_hit) simp_all
  moreover from valid r have "IsValid f \<and> IsValid t"
    by (intro validRange_IsValid) simp
  ultimately show ?case using r by simp
next
  case (Cons p pre)
  obtain f t where p: "p = (f, t)" by (cases p)
  from Cons.prems p have "scanRange a2d dl t f = Some None"
    by (intro scanRange_miss) simp_all
  moreover from Cons.prems p have "IsValid f \<and> IsValid t"
    by (intro validRange_IsValid) simp
  ultimately show ?case using Cons p by simp
qed

text \<open>The only eligible address of the set is the one the scan returns.\<close>

lemma scanRanges_only:
  assumes wf: "\<forall>r\<in>set rs. validRange r \<and> \<not> endsAtTop r"
    and x: "\<exists>r\<in>set rs. Contains r x" "eligible a2d dl x"
    and others: "\<forall>r\<in>set rs. \<forall>a. Contains r a \<and> a \<noteq> x \<longrightarrow> \<not> eligible a2d dl a"
  shows "scanRanges a2d dl rs = Some (Inr (candidate a2d x))"
proof -
  from x(1) obtain pre r post where split: "rs = pre @ r # post" "Contains r x" "\<forall>p\<in>set pre. \<not> Contains p x"
    using split_list_first_prop[of rs "\<lambda>r. Contains r x"] by blast
  have "\<forall>p\<in>set pre. validRange p \<and> \<not> endsAtTop p \<and> (\<forall>a. Contains p a \<longrightarrow> \<not> eligible a2d dl a)"
    using wf others split by auto
  moreover have "validRange r" using wf split by simp
  moreover have "\<forall>a. Contains r a \<and> Compare a x = - 1 \<longrightarrow> \<not> eligible a2d dl a"
  proof (intro allI impI)
    fix a assume a: "Contains r a \<and> Compare a x = - 1"
    then have "a \<noteq> x" by (cases a; cases x) auto
    with a others split show "\<not> eligible a2d dl a" by simp
  qed
  ultimately show ?thesis
    unfolding split(1) using split(2) x(2) by (intro scanRanges_hit) simp_all
qed

section \<open>The bijection invariant\<close>

lemma peerBijection_empty: "peerBijection emptyPeerState"
  by (simp add: peerBijection_def emptyPeerState_def)

lemma peerBijection_forward:
  "peerBijection ps \<Longrightarrow> domainToAddr ps d = Some a \<Longrightarrow> \<exists>ww. addrToDomain ps a = Some ww \<and> Domain' ww = d"
  unfolding peerBijection_def by blast

lemma peerBijection_backward:
  "peerBijection ps \<Longrightarrow> addrToDomain ps a = Some ww \<Longrightarrow> domainToAddr ps (Domain' ww) = Some a"
  unfolding peerBijection_def by blast

lemma peerBijectionI:
  assumes "\<And>d a. domainToAddr ps d = Some a \<Longrightarrow> \<exists>ww. addrToDomain ps a = Some ww \<and> Domain' ww = d"
    and "\<And>a ww. addrToDomain ps a = Some ww \<Longrightarrow> domainToAddr ps (Domain' ww) = Some a"
  shows "peerBijection ps"
  unfolding peerBijection_def using assms by blast

lemma peerBijection_refresh:
  assumes inv: "peerBijection ps" and a: "addrToDomain ps a = Some ww"
  shows "peerBijection (ps\<lparr>addrToDomain := (addrToDomain ps)(a \<mapsto> ww\<lparr>LastUsed := t\<rparr>)\<rparr>)"
proof (rule peerBijectionI)
  fix d b
  assume "domainToAddr (ps\<lparr>addrToDomain := (addrToDomain ps)(a \<mapsto> ww\<lparr>LastUsed := t\<rparr>)\<rparr>) d = Some b"
  then have "domainToAddr ps d = Some b" by simp
  from peerBijection_forward[OF inv this] obtain w where w: "addrToDomain ps b = Some w" "Domain' w = d"
    by blast
  show "\<exists>ww'. addrToDomain (ps\<lparr>addrToDomain := (addrToDomain ps)(a \<mapsto> ww\<lparr>LastUsed := t\<rparr>)\<rparr>) b = Some ww' \<and> Domain' ww' = d"
    using w a by (cases "b = a") simp_all
next
  fix b w
  assume h: "addrToDomain (ps\<lparr>addrToDomain := (addrToDomain ps)(a \<mapsto> ww\<lparr>LastUsed := t\<rparr>)\<rparr>) b = Some w"
  show "domainToAddr (ps\<lparr>addrToDomain := (addrToDomain ps)(a \<mapsto> ww\<lparr>LastUsed := t\<rparr>)\<rparr>) (Domain' w) = Some b"
  proof (cases "b = a")
    case True
    with h have "Domain' w = Domain' ww" by auto
    with peerBijection_backward[OF inv a] True show ?thesis by simp
  next
    case False
    with h have "addrToDomain ps b = Some w" by simp
    from peerBijection_backward[OF inv this] show ?thesis by simp
  qed
qed

lemma peerBijection_allocate:
  assumes inv: "peerBijection ps"
    and fresh: "\<And>existing. domainToAddr ps domain = Some existing \<Longrightarrow> addrToDomain ps existing = None"
    and pick: "if used then (\<exists>ww. addrToDomain ps addr = Some ww \<and> Domain' ww = prev)
               else addrToDomain ps addr = None"
  shows "peerBijection
           \<lparr>domainToAddr = (if used then ((domainToAddr ps)(domain \<mapsto> addr))(prev := None)
                            else (domainToAddr ps)(domain \<mapsto> addr)),
            addrToDomain = (addrToDomain ps)(addr \<mapsto> \<lparr>Domain' = domain, LastUsed = t\<rparr>)\<rparr>"
    (is "peerBijection ?ps'")
proof -
  have nodom: "domainToAddr ps domain = None"
  proof (cases "domainToAddr ps domain")
    case (Some existing)
    from peerBijection_forward[OF inv Some] fresh[OF Some] show ?thesis by simp
  qed simp
  have ne: "used \<Longrightarrow> prev \<noteq> domain"
  proof -
    assume used
    with pick obtain ww where "addrToDomain ps addr = Some ww" "Domain' ww = prev" by auto
    with peerBijection_backward[OF inv this(1)] nodom show ?thesis by auto
  qed
  have others: "\<And>d. domainToAddr ps d = Some addr \<Longrightarrow> used \<and> d = prev"
  proof -
    fix d assume d: "domainToAddr ps d = Some addr"
    from peerBijection_forward[OF inv d] obtain w where w: "addrToDomain ps addr = Some w" "Domain' w = d"
      by blast
    with pick show "used \<and> d = prev" by (cases used) auto
  qed
  show ?thesis
  proof (rule peerBijectionI)
    fix d a
    assume h: "domainToAddr ?ps' d = Some a"
    show "\<exists>ww. addrToDomain ?ps' a = Some ww \<and> Domain' ww = d"
    proof (cases "d = domain")
      case True
      with h ne have "a = addr" by (auto split: if_splits)
      with True show ?thesis by simp
    next
      case False
      with h have old: "domainToAddr ps d = Some a" and np: "used \<longrightarrow> d \<noteq> prev"
        by (auto split: if_splits)
      with others have "a \<noteq> addr" by blast
      with peerBijection_forward[OF inv old] show ?thesis by simp
    qed
  next
    fix a ww
    assume h: "addrToDomain ?ps' a = Some ww"
    show "domainToAddr ?ps' (Domain' ww) = Some a"
    proof (cases "a = addr")
      case True
      with h have "Domain' ww = domain" by auto
      with True ne show ?thesis by auto
    next
      case False
      with h have old: "addrToDomain ps a = Some ww" by simp
      from peerBijection_backward[OF inv old] have bk: "domainToAddr ps (Domain' ww) = Some a" .
      with nodom have nd: "Domain' ww \<noteq> domain" by auto
      have "used \<Longrightarrow> Domain' ww \<noteq> prev"
      proof
        assume used and "Domain' ww = prev"
        with pick obtain w' where "addrToDomain ps addr = Some w'" "Domain' w' = prev" by auto
        with peerBijection_backward[OF inv this(1)] bk \<open>Domain' ww = prev\<close> False show False by simp
      qed
      with bk nd show ?thesis by auto
    qed
  qed
qed


lemma poolBijection_storePeer:
  "poolBijection ipp \<Longrightarrow> peerBijection ps \<Longrightarrow> poolBijection (storePeer ipp nid ps)"
  unfolding poolBijection_def storePeer_def by simp

lemma poolBijection_allocateAddr:
  assumes pool: "poolBijection ipp"
    and inv: "peerBijection ps"
    and fresh: "\<And>existing. domainToAddr ps domain = Some existing \<Longrightarrow> addrToDomain ps existing = None"
    and res: "allocateAddr ipp nid ps domain reuseDeadline updatedAt = Some (ipp', r)"
  shows "poolBijection ipp'"
proof (cases "unusedIPV4 ps (IPSet ipp) reuseDeadline")
  case None
  with res show ?thesis by (simp add: allocateAddr_def)
next
  case (Some found)
  show ?thesis
  proof (cases found)
    case (Inl err)
    with Some res pool show ?thesis by (simp add: allocateAddr_def)
  next
    case (Inr cand)
    obtain addr used prev where cand: "cand = (addr, used, prev)" by (cases cand)
    from Some Inr have "scanRanges (addrToDomain ps) reuseDeadline (IPSet ipp) = Some (Inr cand)"
      unfolding unusedIPV4_def by simp
    then have "candidateOK (addrToDomain ps) reuseDeadline cand"
      by (rule scanRanges_pick)
    with cand have pick: "if used then (\<exists>ww. addrToDomain ps addr = Some ww \<and> Domain' ww = prev)
               else addrToDomain ps addr = None"
      by (auto simp: candidateOK_def)
    from peerBijection_allocate[OF inv fresh pick]
    have "peerBijection
           \<lparr>domainToAddr = (if used then ((domainToAddr ps)(domain \<mapsto> addr))(prev := None)
                            else (domainToAddr ps)(domain \<mapsto> addr)),
            addrToDomain = (addrToDomain ps)(addr \<mapsto> \<lparr>Domain' = domain, LastUsed = updatedAt\<rparr>)\<rparr>"
      by simp
    from poolBijection_storePeer[OF pool this, of nid] Some Inr cand res
    show ?thesis by (simp add: allocateAddr_def Let_def)
  qed
qed

lemma poolBijection_applyCheckoutAddr:
  assumes pool: "poolBijection ipp"
    and res: "applyCheckoutAddr ipp nid domain reuseDeadline updatedAt = Some (ipp', r)"
  shows "poolBijection ipp'"
proof -
  define ps where "ps = (case perPeerMap ipp nid of Some ps \<Rightarrow> ps | None \<Rightarrow> emptyPeerState)"
  define ipp1 where "ipp1 = (case perPeerMap ipp nid of Some ps \<Rightarrow> ipp | None \<Rightarrow> storePeer ipp nid emptyPeerState)"
  have inv: "peerBijection ps"
    using pool unfolding ps_def poolBijection_def
    by (auto simp: peerBijection_empty split: option.splits)
  have pool1: "poolBijection ipp1"
    using pool unfolding ipp1_def
    by (auto simp: peerBijection_empty poolBijection_storePeer split: option.splits)
  have unfold: "applyCheckoutAddr ipp nid domain reuseDeadline updatedAt =
     (case domainToAddr ps domain of
           Some existing \<Rightarrow>
             (case addrToDomain ps existing of
                Some ww \<Rightarrow>
                  Some (storePeer ipp1 nid
                          (ps\<lparr>addrToDomain := (addrToDomain ps)(existing \<mapsto> ww\<lparr>LastUsed := updatedAt\<rparr>)\<rparr>),
                        Inr existing)
              | None \<Rightarrow> allocateAddr ipp1 nid ps domain reuseDeadline updatedAt)
         | None \<Rightarrow> allocateAddr ipp1 nid ps domain reuseDeadline updatedAt)"
    unfolding applyCheckoutAddr_def ps_def ipp1_def by (simp split: option.splits)
  show ?thesis
  proof (cases "domainToAddr ps domain")
    case None
    with res unfold have "allocateAddr ipp1 nid ps domain reuseDeadline updatedAt = Some (ipp', r)" by simp
    moreover from None have "\<And>existing. domainToAddr ps domain = Some existing \<Longrightarrow> addrToDomain ps existing = None"
      by simp
    ultimately show ?thesis using poolBijection_allocateAddr[OF pool1 inv] by blast
  next
    case (Some existing)
    show ?thesis
    proof (cases "addrToDomain ps existing")
      case None
      with Some res unfold have "allocateAddr ipp1 nid ps domain reuseDeadline updatedAt = Some (ipp', r)" by simp
      moreover from None Some have "\<And>e. domainToAddr ps domain = Some e \<Longrightarrow> addrToDomain ps e = None"
        by simp
      ultimately show ?thesis using poolBijection_allocateAddr[OF pool1 inv] by blast
    next
      case (Some ww)
      with \<open>domainToAddr ps domain = Some existing\<close> res unfold
      have "ipp' = storePeer ipp1 nid (ps\<lparr>addrToDomain := (addrToDomain ps)(existing \<mapsto> ww\<lparr>LastUsed := updatedAt\<rparr>)\<rparr>)"
        by simp
      with poolBijection_storePeer[OF pool1 peerBijection_refresh[OF inv Some]] show ?thesis by simp
    qed
  qed
qed

lemma poolBijection_applyMarkLastUsed:
  assumes pool: "poolBijection ipp"
    and res: "applyMarkLastUsed ipp from addr domain updatedAt = (ipp', e)"
  shows "poolBijection ipp'"
proof (cases "perPeerMap ipp from")
  case None
  with res pool show ?thesis by (simp add: applyMarkLastUsed_def)
next
  case (Some ps)
  with pool have inv: "peerBijection ps" unfolding poolBijection_def by blast
  show ?thesis
  proof (cases "addrToDomain ps addr")
    case None
    with Some res pool show ?thesis by (simp add: applyMarkLastUsed_def)
  next
    case (Some ww)
    from poolBijection_storePeer[OF pool peerBijection_refresh[OF inv Some]]
    show ?thesis
      using res pool \<open>perPeerMap ipp from = Some ps\<close> Some
      by (auto simp: applyMarkLastUsed_def split: if_splits)
  qed
qed

lemma reachable_poolBijection: "reachable ipp \<Longrightarrow> poolBijection ipp"
proof (induction rule: reachable.induct)
  case (init ipp)
  then show ?case by (simp add: poolBijection_def)
next
  case (checkout ipp nid domain reuseDeadline updatedAt ipp' r)
  then show ?case using poolBijection_applyCheckoutAddr by blast
next
  case (mark ipp "from" addr domain updatedAt ipp' e)
  then show ?case using poolBijection_applyMarkLastUsed by blast
qed

text \<open>
  C1. In every pool reached from a pool without peers by checkoutAddr and markLastUsed
  applications, every peer's forward entry has its reverse entry: if the peer maps
  domain \<open>d\<close> to address \<open>a\<close>, then it has an entry for \<open>a\<close> and that entry names \<open>d\<close>.
\<close>

theorem bijection_invariant:
  assumes "reachable ipp" and "perPeerMap ipp nid = Some ps" and "domainToAddr ps d = Some a"
  shows "\<exists>ww. addrToDomain ps a = Some ww \<and> Domain' ww = d"
proof -
  from assms(1) have "poolBijection ipp" by (rule reachable_poolBijection)
  with assms(2) have "peerBijection ps" unfolding poolBijection_def by blast
  from peerBijection_forward[OF this assms(3)] show ?thesis .
qed

lemma demo_checkout_a:
  "applyCheckoutAddr demoPool 7 ''a.example'' 0 10 = Some (storePeer demoPool 7 demoPeerA, Inr (V4 1))"
  by (simp add: applyCheckoutAddr_def demoPool_def NewConsensusIPPool_def emptyPeerState_def
      allocateAddr_def unusedIPV4_def scanRange.simps[of _ _ _ "V4 1"] storePeer_def demoPeerA_def)

theorem bijection_invariant_witness:
  "reachable (storePeer demoPool 7 demoPeerA) \<and>
   (\<exists>ww. addrToDomain demoPeerA (V4 1) = Some ww \<and> Domain' ww = ''a.example'')"
proof -
  have "reachable demoPool"
    by (rule reachable.init) (simp add: demoPool_def NewConsensusIPPool_def)
  then have r: "reachable (storePeer demoPool 7 demoPeerA)"
    using demo_checkout_a by (rule reachable.checkout)
  have p: "perPeerMap (storePeer demoPool 7 demoPeerA) 7 = Some demoPeerA"
    by (simp add: storePeer_def)
  have d: "domainToAddr demoPeerA ''a.example'' = Some (V4 1)"
    by (simp add: demoPeerA_def)
  from r bijection_invariant[OF r p d] show ?thesis by simp
qed

section \<open>The usage tracker\<close>

lemma storePeer_same:
  "perPeerMap ipp nid = Some ps \<Longrightarrow> storePeer ipp nid ps = ipp"
  by (simp add: storePeer_def map_upd_triv)

lemma refresh_same:
  "addrToDomain ps addr = Some ww \<Longrightarrow> LastUsed ww = t \<Longrightarrow>
     ps\<lparr>addrToDomain := (addrToDomain ps)(addr \<mapsto> ww\<lparr>LastUsed := t\<rparr>)\<rparr> = ps"
  by (auto simp: map_upd_triv)

lemma store_same:
  "addrToDomain ps addr = Some ww \<Longrightarrow> ps\<lparr>addrToDomain := (addrToDomain ps)(addr \<mapsto> ww)\<rparr> = ps"
  by (auto simp: map_upd_triv)

lemma applyMarkLastUsed_noop:
  assumes "perPeerMap ipp from = Some ps" and "addrToDomain ps addr = Some ww" and "t \<le> LastUsed ww"
  shows "applyMarkLastUsed ipp from addr domain t = (ipp, None)"
proof (cases "t = LastUsed ww")
  case True
  with assms show ?thesis
    by (simp add: applyMarkLastUsed_def After_def refresh_same store_same storePeer_same)
next
  case False
  with assms show ?thesis by (simp add: applyMarkLastUsed_def After_def)
qed

lemma applyMarkLastUsed_twice:
  assumes "t2 \<le> t1"
  shows "applyMarkLastUsed (fst (applyMarkLastUsed ipp from addr domain t1)) from addr domain t2 =
         (fst (applyMarkLastUsed ipp from addr domain t1), None)"
proof (cases "perPeerMap ipp from")
  case None
  then show ?thesis by (simp add: applyMarkLastUsed_def)
next
  case (Some ps)
  note ps = this
  show ?thesis
  proof (cases "addrToDomain ps addr")
    case None
    with ps show ?thesis by (simp add: applyMarkLastUsed_def)
  next
    case (Some ww)
    show ?thesis
    proof (cases "Domain' ww \<noteq> domain \<or> After (LastUsed ww) t1")
      case True
      then have first: "applyMarkLastUsed ipp from addr domain t1 = (ipp, None)"
        using ps Some by (auto simp: applyMarkLastUsed_def)
      from True show ?thesis
      proof
        assume "Domain' ww \<noteq> domain"
        with ps Some show ?thesis unfolding first by (simp add: applyMarkLastUsed_def)
      next
        assume "After (LastUsed ww) t1"
        with assms have "t2 \<le> LastUsed ww" by (simp add: After_def)
        from applyMarkLastUsed_noop[OF ps Some this] show ?thesis unfolding first by simp
      qed
    next
      case False
      define ps' where "ps' = ps\<lparr>addrToDomain := (addrToDomain ps)(addr \<mapsto> ww\<lparr>LastUsed := t1\<rparr>)\<rparr>"
      from False ps Some have first: "applyMarkLastUsed ipp from addr domain t1 = (storePeer ipp from ps', None)"
        by (simp add: applyMarkLastUsed_def ps'_def)
      have "perPeerMap (storePeer ipp from ps') from = Some ps'" by (simp add: storePeer_def)
      moreover have "addrToDomain ps' addr = Some (ww\<lparr>LastUsed := t1\<rparr>)" by (simp add: ps'_def)
      moreover have "t2 \<le> LastUsed (ww\<lparr>LastUsed := t1\<rparr>)" using assms by simp
      ultimately show ?thesis unfolding first fst_conv by (rule applyMarkLastUsed_noop)
    qed
  qed
qed

text \<open>
  C6. applyMarkLastUsed leaves the pool as it is for an unknown peer, for an address the
  peer has no entry for, for an entry that names another domain, and for a timestamp
  that is not after the stored one; so after one application with timestamp \<open>t\<close>, a
  second one with the same or an earlier timestamp changes nothing.
\<close>

theorem applyMarkLastUsed_idempotent:
  "(perPeerMap ipp from = None \<longrightarrow> applyMarkLastUsed ipp from addr domain t = (ipp, None)) \<and>
   (\<forall>ps. perPeerMap ipp from = Some ps \<and> addrToDomain ps addr = None \<longrightarrow>
      applyMarkLastUsed ipp from addr domain t = (ipp, None)) \<and>
   (\<forall>ps ww. perPeerMap ipp from = Some ps \<and> addrToDomain ps addr = Some ww \<and> Domain' ww \<noteq> domain \<longrightarrow>
      applyMarkLastUsed ipp from addr domain t = (ipp, None)) \<and>
   (\<forall>ps ww. perPeerMap ipp from = Some ps \<and> addrToDomain ps addr = Some ww \<and> t \<le> LastUsed ww \<longrightarrow>
      applyMarkLastUsed ipp from addr domain t = (ipp, None)) \<and>
   (\<forall>t2. t2 \<le> t \<longrightarrow>
      applyMarkLastUsed (fst (applyMarkLastUsed ipp from addr domain t)) from addr domain t2 =
        (fst (applyMarkLastUsed ipp from addr domain t), None))"
proof (intro conjI allI impI)
  show "perPeerMap ipp from = None \<Longrightarrow> applyMarkLastUsed ipp from addr domain t = (ipp, None)"
    by (simp add: applyMarkLastUsed_def)
next
  fix ps
  assume "perPeerMap ipp from = Some ps \<and> addrToDomain ps addr = None"
  then show "applyMarkLastUsed ipp from addr domain t = (ipp, None)"
    by (simp add: applyMarkLastUsed_def)
next
  fix ps ww
  assume "perPeerMap ipp from = Some ps \<and> addrToDomain ps addr = Some ww \<and> Domain' ww \<noteq> domain"
  then show "applyMarkLastUsed ipp from addr domain t = (ipp, None)"
    by (simp add: applyMarkLastUsed_def)
next
  fix ps ww
  assume "perPeerMap ipp from = Some ps \<and> addrToDomain ps addr = Some ww \<and> t \<le> LastUsed ww"
  then show "applyMarkLastUsed ipp from addr domain t = (ipp, None)"
    using applyMarkLastUsed_noop by blast
next
  fix t2 :: Time
  assume "t2 \<le> t"
  then show "applyMarkLastUsed (fst (applyMarkLastUsed ipp from addr domain t)) from addr domain t2 =
        (fst (applyMarkLastUsed ipp from addr domain t), None)"
    by (rule applyMarkLastUsed_twice)
qed

theorem applyMarkLastUsed_idempotent_witness:
  "perPeerMap demoPoolA 8 = None \<and>
   applyMarkLastUsed demoPoolA 8 (V4 1) ''a.example'' 20 = (demoPoolA, None) \<and>
   perPeerMap demoPoolA 7 = Some demoPeerA \<and> addrToDomain demoPeerA (V4 2) = None \<and>
   applyMarkLastUsed demoPoolA 7 (V4 2) ''a.example'' 20 = (demoPoolA, None) \<and>
   map_option Domain' (addrToDomain demoPeerA (V4 1)) = Some ''a.example'' \<and>
   applyMarkLastUsed demoPoolA 7 (V4 1) ''b.example'' 20 = (demoPoolA, None) \<and>
   map_option LastUsed (addrToDomain demoPeerA (V4 1)) = Some 10 \<and>
   applyMarkLastUsed demoPoolA 7 (V4 1) ''a.example'' 5 = (demoPoolA, None) \<and>
   applyMarkLastUsed (fst (applyMarkLastUsed demoPoolA 7 (V4 1) ''a.example'' 20)) 7 (V4 1) ''a.example'' 15 =
     (fst (applyMarkLastUsed demoPoolA 7 (V4 1) ''a.example'' 20), None) \<and>
   fst (applyMarkLastUsed demoPoolA 7 (V4 1) ''a.example'' 20) \<noteq> demoPoolA"
proof -
  have p8: "perPeerMap demoPoolA 8 = None"
    by (simp add: demoPoolA_def storePeer_def demoPool_def NewConsensusIPPool_def)
  have p7: "perPeerMap demoPoolA 7 = Some demoPeerA"
    by (simp add: demoPoolA_def storePeer_def)
  have a2: "addrToDomain demoPeerA (V4 2) = None"
    by (simp add: demoPeerA_def)
  have a1: "addrToDomain demoPeerA (V4 1) = Some \<lparr>Domain' = ''a.example'', LastUsed = 10\<rparr>"
    by (simp add: demoPeerA_def)
  have changed: "fst (applyMarkLastUsed demoPoolA 7 (V4 1) ''a.example'' 20) \<noteq> demoPoolA"
  proof
    assume "fst (applyMarkLastUsed demoPoolA 7 (V4 1) ''a.example'' 20) = demoPoolA"
    then have "perPeerMap (fst (applyMarkLastUsed demoPoolA 7 (V4 1) ''a.example'' 20)) 7 = Some demoPeerA"
      using p7 by simp
    then have "addrToDomain (demoPeerA\<lparr>addrToDomain := (addrToDomain demoPeerA)(V4 1 \<mapsto> \<lparr>Domain' = ''a.example'', LastUsed = 20\<rparr>)\<rparr>) (V4 1) = addrToDomain demoPeerA (V4 1)"
      by (simp add: applyMarkLastUsed_def p7 a1 After_def storePeer_def)
    then show False by (simp add: a1)
  qed
  from applyMarkLastUsed_idempotent[of demoPoolA 8 "V4 1" "''a.example''" 20]
    applyMarkLastUsed_idempotent[of demoPoolA 7 "V4 2" "''a.example''" 20]
    applyMarkLastUsed_idempotent[of demoPoolA 7 "V4 1" "''b.example''" 20]
    applyMarkLastUsed_idempotent[of demoPoolA 7 "V4 1" "''a.example''" 5]
    applyMarkLastUsed_idempotent[of demoPoolA 7 "V4 1" "''a.example''" 20]
  show ?thesis using p8 p7 a2 a1 changed by simp
qed

section \<open>The allocation engine\<close>

lemma scanRanges_error:
  "scanRanges a2d dl rs = Some (Inl err) \<Longrightarrow> err = Error ''ip pool exhausted''"
proof (induction rs)
  case Nil
  then show ?case by simp
next
  case (Cons r rs)
  obtain f t where r: "r = (f, t)" by (cases r)
  with Cons show ?case
    by (auto split: if_splits option.splits)
qed

lemma allocateAddr_error:
  assumes "allocateAddr ipp nid ps domain reuseDeadline updatedAt = Some (ipp', Inl err)"
  shows "ipp' = ipp \<and> err = Error ''ip pool exhausted''"
proof (cases "unusedIPV4 ps (IPSet ipp) reuseDeadline")
  case None
  with assms show ?thesis by (simp add: allocateAddr_def)
next
  case (Some found)
  show ?thesis
  proof (cases found)
    case (Inl e)
    with Some assms have "ipp' = ipp" "e = err" by (simp_all add: allocateAddr_def)
    moreover from Some Inl have "e = Error ''ip pool exhausted''"
      unfolding unusedIPV4_def by (intro scanRanges_error) simp
    ultimately show ?thesis by simp
  next
    case (Inr cand)
    with Some assms show ?thesis by (simp add: allocateAddr_def Let_def split: prod.splits)
  qed
qed

lemma allocateAddr_keeps_peer:
  assumes "allocateAddr ipp nid ps domain reuseDeadline updatedAt = Some (ipp', r)"
    and "perPeerMap ipp nid \<noteq> None"
  shows "perPeerMap ipp' nid \<noteq> None"
  using assms
  by (auto simp: allocateAddr_def Let_def storePeer_def split: option.splits sum.splits prod.splits)

lemma applyCheckoutAddr_unseen:
  "perPeerMap ipp nid = None \<Longrightarrow>
     applyCheckoutAddr ipp nid domain reuseDeadline updatedAt =
       allocateAddr (storePeer ipp nid emptyPeerState) nid emptyPeerState domain reuseDeadline updatedAt"
  by (simp add: applyCheckoutAddr_def emptyPeerState_def)

text \<open>
  C9. applyCheckoutAddr for a peer the pool has not seen stores a peer state before it
  scans, so the peer has an entry afterwards whatever the result; when the result is an
  error, the error is the exhaustion error and the pool returned is the old pool with
  the empty peer state stored for the peer, which differs from the old pool.
\<close>

theorem checkout_exhausted_keeps_new_peer:
  assumes "perPeerMap ipp nid = None"
    and "applyCheckoutAddr ipp nid domain reuseDeadline updatedAt = Some (ipp', r)"
  shows "perPeerMap ipp' nid \<noteq> None \<and>
         (\<forall>err. r = Inl err \<longrightarrow>
            err = Error ''ip pool exhausted'' \<and> ipp' = storePeer ipp nid emptyPeerState \<and>
            perPeerMap ipp' nid = Some emptyPeerState \<and> ipp' \<noteq> ipp)"
proof -
  from assms have alloc:
    "allocateAddr (storePeer ipp nid emptyPeerState) nid emptyPeerState domain reuseDeadline updatedAt = Some (ipp', r)"
    by (simp add: applyCheckoutAddr_unseen)
  have stored: "perPeerMap (storePeer ipp nid emptyPeerState) nid = Some emptyPeerState"
    by (simp add: storePeer_def)
  have "perPeerMap ipp' nid \<noteq> None"
    using allocateAddr_keeps_peer[OF alloc] stored by simp
  moreover have "\<forall>err. r = Inl err \<longrightarrow>
            err = Error ''ip pool exhausted'' \<and> ipp' = storePeer ipp nid emptyPeerState \<and>
            perPeerMap ipp' nid = Some emptyPeerState \<and> ipp' \<noteq> ipp"
  proof (intro allI impI)
    fix err assume "r = Inl err"
    with alloc have e: "ipp' = storePeer ipp nid emptyPeerState" "err = Error ''ip pool exhausted''"
      using allocateAddr_error by blast+
    moreover have "ipp' \<noteq> ipp"
    proof
      assume "ipp' = ipp"
      with e(1) stored assms(1) show False by simp
    qed
    ultimately show "err = Error ''ip pool exhausted'' \<and> ipp' = storePeer ipp nid emptyPeerState \<and>
            perPeerMap ipp' nid = Some emptyPeerState \<and> ipp' \<noteq> ipp"
      using stored by simp
  qed
  ultimately show ?thesis by (rule conjI)
qed

theorem checkout_exhausted_keeps_new_peer_witness:
  "perPeerMap emptySetPool 7 = None \<and>
   applyCheckoutAddr emptySetPool 7 ''a.example'' 0 10 =
     Some (storePeer emptySetPool 7 emptyPeerState, Inl (Error ''ip pool exhausted'')) \<and>
   perPeerMap (storePeer emptySetPool 7 emptyPeerState) 7 = Some emptyPeerState \<and>
   storePeer emptySetPool 7 emptyPeerState \<noteq> emptySetPool"
proof -
  have p: "perPeerMap emptySetPool 7 = None"
    by (simp add: emptySetPool_def NewConsensusIPPool_def)
  have c: "applyCheckoutAddr emptySetPool 7 ''a.example'' 0 10 =
     Some (storePeer emptySetPool 7 emptyPeerState, Inl (Error ''ip pool exhausted''))"
    by (simp add: applyCheckoutAddr_def emptySetPool_def NewConsensusIPPool_def allocateAddr_def
        unusedIPV4_def emptyPeerState_def storePeer_def)
  from checkout_exhausted_keeps_new_peer[OF p c] p c show ?thesis by simp
qed

text \<open>
  C4 (amended). applyCheckoutAddr takes the fast path, refreshing the timestamp of the
  reverse entry and returning the address the domain maps to, exactly when the peer
  maps the domain to an address and has some entry for that address, whatever domain
  that entry names. It runs the allocation scan when the entry for the address is
  missing, when the domain is not mapped, and for a peer not seen before. In a
  reachable pool a forward entry always has its reverse entry and that entry names the
  domain, so there every mapped domain is served by the fast path.
\<close>

theorem checkout_fast_path:
  "(\<forall>ps existing ww.
      perPeerMap ipp nid = Some ps \<and> domainToAddr ps domain = Some existing \<and>
      addrToDomain ps existing = Some ww \<longrightarrow>
      applyCheckoutAddr ipp nid domain reuseDeadline updatedAt =
        Some (storePeer ipp nid
                (ps\<lparr>addrToDomain := (addrToDomain ps)(existing \<mapsto> ww\<lparr>LastUsed := updatedAt\<rparr>)\<rparr>),
              Inr existing)) \<and>
   (\<forall>ps existing.
      perPeerMap ipp nid = Some ps \<and> domainToAddr ps domain = Some existing \<and>
      addrToDomain ps existing = None \<longrightarrow>
      applyCheckoutAddr ipp nid domain reuseDeadline updatedAt =
        allocateAddr ipp nid ps domain reuseDeadline updatedAt) \<and>
   (\<forall>ps.
      perPeerMap ipp nid = Some ps \<and> domainToAddr ps domain = None \<longrightarrow>
      applyCheckoutAddr ipp nid domain reuseDeadline updatedAt =
        allocateAddr ipp nid ps domain reuseDeadline updatedAt) \<and>
   (perPeerMap ipp nid = None \<longrightarrow>
      applyCheckoutAddr ipp nid domain reuseDeadline updatedAt =
        allocateAddr (storePeer ipp nid emptyPeerState) nid emptyPeerState domain reuseDeadline updatedAt) \<and>
   (\<forall>ps existing.
      reachable ipp \<and> perPeerMap ipp nid = Some ps \<and> domainToAddr ps domain = Some existing \<longrightarrow>
      (\<exists>ww. addrToDomain ps existing = Some ww \<and> Domain' ww = domain \<and>
         applyCheckoutAddr ipp nid domain reuseDeadline updatedAt =
           Some (storePeer ipp nid
                   (ps\<lparr>addrToDomain := (addrToDomain ps)(existing \<mapsto> ww\<lparr>LastUsed := updatedAt\<rparr>)\<rparr>),
                 Inr existing)))"
proof (intro conjI allI impI)
  fix ps existing ww
  assume "perPeerMap ipp nid = Some ps \<and> domainToAddr ps domain = Some existing \<and>
      addrToDomain ps existing = Some ww"
  then show "applyCheckoutAddr ipp nid domain reuseDeadline updatedAt =
        Some (storePeer ipp nid
                (ps\<lparr>addrToDomain := (addrToDomain ps)(existing \<mapsto> ww\<lparr>LastUsed := updatedAt\<rparr>)\<rparr>),
              Inr existing)"
    by (simp add: applyCheckoutAddr_def)
next
  fix ps existing
  assume "perPeerMap ipp nid = Some ps \<and> domainToAddr ps domain = Some existing \<and>
      addrToDomain ps existing = None"
  then show "applyCheckoutAddr ipp nid domain reuseDeadline updatedAt =
        allocateAddr ipp nid ps domain reuseDeadline updatedAt"
    by (simp add: applyCheckoutAddr_def)
next
  fix ps
  assume "perPeerMap ipp nid = Some ps \<and> domainToAddr ps domain = None"
  then show "applyCheckoutAddr ipp nid domain reuseDeadline updatedAt =
        allocateAddr ipp nid ps domain reuseDeadline updatedAt"
    by (simp add: applyCheckoutAddr_def)
next
  assume "perPeerMap ipp nid = None"
  then show "applyCheckoutAddr ipp nid domain reuseDeadline updatedAt =
        allocateAddr (storePeer ipp nid emptyPeerState) nid emptyPeerState domain reuseDeadline updatedAt"
    by (rule applyCheckoutAddr_unseen)
next
  fix ps existing
  assume h: "reachable ipp \<and> perPeerMap ipp nid = Some ps \<and> domainToAddr ps domain = Some existing"
  then have "poolBijection ipp" using reachable_poolBijection by blast
  with h have "peerBijection ps" unfolding poolBijection_def by blast
  with h obtain ww where ww: "addrToDomain ps existing = Some ww" "Domain' ww = domain"
    using peerBijection_forward by blast
  with h have "applyCheckoutAddr ipp nid domain reuseDeadline updatedAt =
           Some (storePeer ipp nid
                   (ps\<lparr>addrToDomain := (addrToDomain ps)(existing \<mapsto> ww\<lparr>LastUsed := updatedAt\<rparr>)\<rparr>),
                 Inr existing)"
    by (simp add: applyCheckoutAddr_def)
  with ww show "\<exists>ww. addrToDomain ps existing = Some ww \<and> Domain' ww = domain \<and>
         applyCheckoutAddr ipp nid domain reuseDeadline updatedAt =
           Some (storePeer ipp nid
                   (ps\<lparr>addrToDomain := (addrToDomain ps)(existing \<mapsto> ww\<lparr>LastUsed := updatedAt\<rparr>)\<rparr>),
                 Inr existing)"
    by blast
qed

text \<open>
  The claim as first stated fails on a peer whose forward entry for a.example points at
  0.0.0.1 while the entry of 0.0.0.1 names b.example: the checkout returns 0.0.0.1 and
  only refreshes that entry, where the allocation would have handed out 0.0.0.2.
\<close>

theorem checkout_fast_path_counterexample:
  "domainToAddr stalePeer ''a.example'' = Some (V4 1) \<and>
   map_option Domain' (addrToDomain stalePeer (V4 1)) = Some ''b.example'' \<and>
   applyCheckoutAddr stalePool 7 ''a.example'' 50 200 =
     Some (storePeer stalePool 7
             (stalePeer\<lparr>addrToDomain := [V4 1 \<mapsto> \<lparr>Domain' = ''b.example'', LastUsed = 200\<rparr>]\<rparr>),
           Inr (V4 1)) \<and>
   allocateAddr stalePool 7 stalePeer ''a.example'' 50 200 =
     Some (storePeer stalePool 7
             \<lparr>domainToAddr = [''a.example'' \<mapsto> V4 2],
              addrToDomain = [V4 1 \<mapsto> \<lparr>Domain' = ''b.example'', LastUsed = 100\<rparr>,
                              V4 2 \<mapsto> \<lparr>Domain' = ''a.example'', LastUsed = 200\<rparr>]\<rparr>,
           Inr (V4 2))"
  by (simp add: applyCheckoutAddr_def stalePool_def stalePeer_def allocateAddr_def unusedIPV4_def
      scanRange.simps[of _ _ _ "V4 1"] scanRange.simps[of _ _ _ "V4 2"] Before_def storePeer_def)

theorem checkout_fast_path_witness:
  "applyCheckoutAddr demoPoolA 7 ''a.example'' 0 30 =
     Some (storePeer demoPoolA 7
             (demoPeerA\<lparr>addrToDomain := [V4 1 \<mapsto> \<lparr>Domain' = ''a.example'', LastUsed = 30\<rparr>]\<rparr>),
           Inr (V4 1)) \<and>
   applyCheckoutAddr demoPoolA 7 ''b.example'' 0 30 = allocateAddr demoPoolA 7 demoPeerA ''b.example'' 0 30 \<and>
   applyCheckoutAddr demoPoolA 8 ''a.example'' 0 30 =
     allocateAddr (storePeer demoPoolA 8 emptyPeerState) 8 emptyPeerState ''a.example'' 0 30 \<and>
   applyCheckoutAddr stalePool 7 ''c.example'' 0 30 = allocateAddr stalePool 7 stalePeer ''c.example'' 0 30 \<and>
   reachable demoPoolA \<and>
   (\<exists>ww. addrToDomain demoPeerA (V4 1) = Some ww \<and> Domain' ww = ''a.example'' \<and>
      applyCheckoutAddr demoPoolA 7 ''a.example'' 5 40 =
        Some (storePeer demoPoolA 7
                (demoPeerA\<lparr>addrToDomain := (addrToDomain demoPeerA)(V4 1 \<mapsto> ww\<lparr>LastUsed := 40\<rparr>)\<rparr>),
              Inr (V4 1)))"
proof -
  have "reachable demoPool"
    by (rule reachable.init) (simp add: demoPool_def NewConsensusIPPool_def)
  then have r: "reachable demoPoolA"
    unfolding demoPoolA_def using demo_checkout_a by (rule reachable.checkout)
  have p7: "perPeerMap demoPoolA 7 = Some demoPeerA"
    by (simp add: demoPoolA_def storePeer_def)
  have p8: "perPeerMap demoPoolA 8 = None"
    by (simp add: demoPoolA_def storePeer_def demoPool_def NewConsensusIPPool_def)
  have d: "domainToAddr demoPeerA ''a.example'' = Some (V4 1)" "domainToAddr demoPeerA ''b.example'' = None"
    "addrToDomain demoPeerA (V4 1) = Some \<lparr>Domain' = ''a.example'', LastUsed = 10\<rparr>"
    by (simp_all add: demoPeerA_def)
  have s: "perPeerMap stalePool 7 = Some stalePeer" "domainToAddr stalePeer ''c.example'' = None"
    by (simp_all add: stalePool_def stalePeer_def)
  from checkout_fast_path[of demoPoolA 7 "''a.example''" 0 30] p7 d
  have 1: "applyCheckoutAddr demoPoolA 7 ''a.example'' 0 30 =
     Some (storePeer demoPoolA 7
             (demoPeerA\<lparr>addrToDomain := [V4 1 \<mapsto> \<lparr>Domain' = ''a.example'', LastUsed = 30\<rparr>]\<rparr>),
           Inr (V4 1))"
    by (simp add: demoPeerA_def)
  from checkout_fast_path[of demoPoolA 7 "''b.example''" 0 30] p7 d
  have 2: "applyCheckoutAddr demoPoolA 7 ''b.example'' 0 30 = allocateAddr demoPoolA 7 demoPeerA ''b.example'' 0 30"
    by simp
  from checkout_fast_path[of demoPoolA 8 "''a.example''" 0 30] p8
  have 3: "applyCheckoutAddr demoPoolA 8 ''a.example'' 0 30 =
     allocateAddr (storePeer demoPoolA 8 emptyPeerState) 8 emptyPeerState ''a.example'' 0 30"
    by simp
  from checkout_fast_path[of stalePool 7 "''c.example''" 0 30] s
  have 4: "applyCheckoutAddr stalePool 7 ''c.example'' 0 30 = allocateAddr stalePool 7 stalePeer ''c.example'' 0 30"
    by simp
  from checkout_fast_path[of demoPoolA 7 "''a.example''" 5 40] r p7 d(1)
  have 5: "\<exists>ww. addrToDomain demoPeerA (V4 1) = Some ww \<and> Domain' ww = ''a.example'' \<and>
      applyCheckoutAddr demoPoolA 7 ''a.example'' 5 40 =
        Some (storePeer demoPoolA 7
                (demoPeerA\<lparr>addrToDomain := (addrToDomain demoPeerA)(V4 1 \<mapsto> ww\<lparr>LastUsed := 40\<rparr>)\<rparr>),
              Inr (V4 1))"
    by blast
  from 1 2 3 4 r 5 show ?thesis by blast
qed

section \<open>The dispatcher\<close>

text \<open>
  C10. Apply panics when the entry's bytes do not decode to a command and when the
  command's name is neither checkoutAddr nor markLastUsed, and the replay stops there.
  When the name is one of the two and the arguments do not decode, Apply returns the
  decoding error as the command's result with the pool unchanged, and the replay goes
  on with the entries that follow.
\<close>

theorem Apply_halts_or_returns:
  "(\<forall>err. unmarshalCommand c l = Inl err \<longrightarrow>
      Apply c ipp l = Some (Panics (PanicString (''failed to unmarshal command: '' @ errorText err))) \<and>
      replay c ipp (l # ls) = Some (Panics (PanicString (''failed to unmarshal command: '' @ errorText err)))) \<and>
   (\<forall>cmd. unmarshalCommand c l = Inr cmd \<and> Name cmd \<noteq> ''checkoutAddr'' \<and> Name cmd \<noteq> ''markLastUsed'' \<longrightarrow>
      Apply c ipp l = Some (Panics (PanicString (''unrecognized command: '' @ Name cmd))) \<and>
      replay c ipp (l # ls) = Some (Panics (PanicString (''unrecognized command: '' @ Name cmd)))) \<and>
   (\<forall>cmd err.
      unmarshalCommand c l = Inr cmd \<and>
      (Name cmd = ''checkoutAddr'' \<and> unmarshalCheckoutAddrArgs c (Args cmd) = Inl err \<or>
       Name cmd = ''markLastUsed'' \<and> unmarshalMarkLastUsedArgs c (Args cmd) = Inl err) \<longrightarrow>
      Apply c ipp l = Some (Returns (ipp, \<lparr>Err = Some err, Result = []\<rparr>)) \<and>
      replay c ipp (l # ls) =
        map_option (map_exec (\<lambda>(ipp', rs). (ipp', \<lparr>Err = Some err, Result = []\<rparr> # rs))) (replay c ipp ls))"
proof (intro conjI allI impI)
  fix err assume "unmarshalCommand c l = Inl err"
  then show "Apply c ipp l = Some (Panics (PanicString (''failed to unmarshal command: '' @ errorText err)))"
    and "replay c ipp (l # ls) = Some (Panics (PanicString (''failed to unmarshal command: '' @ errorText err)))"
    by (simp_all add: Apply_def)
next
  fix cmd assume "unmarshalCommand c l = Inr cmd \<and> Name cmd \<noteq> ''checkoutAddr'' \<and> Name cmd \<noteq> ''markLastUsed''"
  then show "Apply c ipp l = Some (Panics (PanicString (''unrecognized command: '' @ Name cmd)))"
    and "replay c ipp (l # ls) = Some (Panics (PanicString (''unrecognized command: '' @ Name cmd)))"
    by (simp_all add: Apply_def)
next
  fix cmd err
  assume h: "unmarshalCommand c l = Inr cmd \<and>
      (Name cmd = ''checkoutAddr'' \<and> unmarshalCheckoutAddrArgs c (Args cmd) = Inl err \<or>
       Name cmd = ''markLastUsed'' \<and> unmarshalMarkLastUsedArgs c (Args cmd) = Inl err)"
  then show a: "Apply c ipp l = Some (Returns (ipp, \<lparr>Err = Some err, Result = []\<rparr>))"
    by (auto simp: Apply_def executeCheckoutAddr_def executeMarkLastUsed_def)
  show "replay c ipp (l # ls) =
        map_option (map_exec (\<lambda>(ipp', rs). (ipp', \<lparr>Err = Some err, Result = []\<rparr> # rs))) (replay c ipp ls)"
    unfolding replay.simps a by (simp split: option.splits exec.splits)
qed

theorem Apply_halts_or_returns_witness:
  "Apply demoCodec demoPool [] =
     Some (Panics (PanicString ''failed to unmarshal command: unexpected end of JSON input'')) \<and>
   replay demoCodec demoPool [[], [0, 7, 10]] =
     Some (Panics (PanicString ''failed to unmarshal command: unexpected end of JSON input'')) \<and>
   Apply demoCodec demoPool [2] = Some (Panics (PanicString ''unrecognized command: compact'')) \<and>
   replay demoCodec demoPool [[2], [0, 7, 10]] = Some (Panics (PanicString ''unrecognized command: compact'')) \<and>
   Apply demoCodec demoPool [0, 7] =
     Some (Returns (demoPool, \<lparr>Err = Some (Error ''unexpected end of JSON input''), Result = []\<rparr>)) \<and>
   Apply demoCodec demoPool [1] =
     Some (Returns (demoPool, \<lparr>Err = Some (Error ''unexpected end of JSON input''), Result = []\<rparr>)) \<and>
   replay demoCodec demoPool [[0, 7], [0, 7, 10]] =
     Some (Returns (demoPoolA,
       [\<lparr>Err = Some (Error ''unexpected end of JSON input''), Result = []\<rparr>, \<lparr>Err = None, Result = [1]\<rparr>]))"
proof -
  have u: "unmarshalCommand demoCodec [] = Inl (Error ''unexpected end of JSON input'')"
    "unmarshalCommand demoCodec [2] = Inr \<lparr>Name = ''compact'', Args = []\<rparr>"
    "unmarshalCommand demoCodec [0, 7] = Inr \<lparr>Name = ''checkoutAddr'', Args = [7]\<rparr>"
    "unmarshalCommand demoCodec [1] = Inr \<lparr>Name = ''markLastUsed'', Args = []\<rparr>"
    "unmarshalCheckoutAddrArgs demoCodec [7] = Inl (Error ''unexpected end of JSON input'')"
    "unmarshalMarkLastUsedArgs demoCodec [] = Inl (Error ''unexpected end of JSON input'')"
    by (simp_all add: demoCodec_def)
  have rest: "replay demoCodec demoPool [[0, 7, 10]] = Some (Returns (demoPoolA, [\<lparr>Err = None, Result = [1]\<rparr>]))"
    by (simp add: Apply_def executeCheckoutAddr_def demoCodec_def demo_checkout_a demoPoolA_def)
  from Apply_halts_or_returns[of demoCodec "[]" demoPool "[[0, 7, 10]]"]
    Apply_halts_or_returns[of demoCodec "[2]" demoPool "[[0, 7, 10]]"]
    Apply_halts_or_returns[of demoCodec "[0, 7]" demoPool "[[0, 7, 10]]"]
    Apply_halts_or_returns[of demoCodec "[1]" demoPool "[[0, 7, 10]]"]
  show ?thesis using u rest by simp
qed





















section \<open>The reader's retries and its refresh\<close>

declare retryDomainLookup.simps [simp del]
declare doubleLoop.simps [simp del]

lemma doubleLoop_values:
  "doubleLoop 0 0 100 = 100" "doubleLoop 0 1 100 = 200" "doubleLoop 0 2 100 = 400"
  "doubleLoop 0 3 100 = 800" "doubleLoop 0 4 100 = 1600"
  by (simp_all add: doubleLoop.simps)

lemma retry_hit:
  "visible view clock from addr = Some ww \<Longrightarrow>
     retryDomainLookup view clock from addr n = ((ww, True), [], [])"
  by (subst retryDomainLookup.simps) (simp add: visible_def)

lemma retry_miss_step:
  "visible view clock from addr = None \<Longrightarrow> n \<le> 4 \<Longrightarrow>
     retryDomainLookup view clock from addr n =
       (case retryDomainLookup view (clock + doubleLoop 0 n 100) from addr (n + 1) of
          (r, sleeps, logs) \<Rightarrow> (r, doubleLoop 0 n 100 # sleeps, logs))"
  by (subst retryDomainLookup.simps) (simp add: visible_def Let_def)

lemma retry_miss_last:
  "visible view clock from addr = None \<Longrightarrow> 4 < n \<Longrightarrow>
     fst (retryDomainLookup view clock from addr n) = (zeroWhereWhen, False) \<and>
     fst (snd (retryDomainLookup view clock from addr n)) = [] \<and>
     length (snd (snd (retryDomainLookup view clock from addr n))) = 1"
  by (subst (1 2 3) retryDomainLookup.simps) (simp add: visible_def)

lemma retry_found_flag:
  "snd (fst (retryDomainLookup view clock from addr n)) =
     (if visible view clock from addr \<noteq> None then True
      else if 4 < n then False
      else snd (fst (retryDomainLookup view (clock + doubleLoop 0 n 100) from addr (n + 1))))"
proof (cases "visible view clock from addr")
  case (Some ww)
  then show ?thesis by (simp add: retry_hit)
next
  case None
  show ?thesis
  proof (cases "4 < n")
    case True
    with None retry_miss_last[OF None True] show ?thesis by simp
  next
    case False
    then have "n \<le> 4" by simp
    from retry_miss_step[OF None this] None False show ?thesis
      by (simp add: case_prod_unfold)
  qed
qed

lemma retry_sleeps:
  "fst (snd (retryDomainLookup view clock from addr n)) =
     (if visible view clock from addr \<noteq> None then []
      else if 4 < n then []
      else doubleLoop 0 n 100 # fst (snd (retryDomainLookup view (clock + doubleLoop 0 n 100) from addr (n + 1))))"
proof (cases "visible view clock from addr")
  case (Some ww)
  then show ?thesis by (simp add: retry_hit)
next
  case None
  show ?thesis
  proof (cases "4 < n")
    case True
    with None retry_miss_last[OF None True] show ?thesis by simp
  next
    case False
    then have "n \<le> 4" by simp
    from retry_miss_step[OF None this] None False show ?thesis
      by (simp add: case_prod_unfold)
  qed
qed

lemma retry_found_iff:
  "snd (fst (retryDomainLookup view 0 from addr 0)) = False \<longleftrightarrow>
     (\<forall>t\<in>set [0, 100, 300, 700, 1500, 3100]. visible view t from addr = None)"
  apply (subst retry_found_flag, simp add: doubleLoop_values)
  apply (subst retry_found_flag, simp add: doubleLoop_values)
  apply (subst retry_found_flag, simp add: doubleLoop_values)
  apply (subst retry_found_flag, simp add: doubleLoop_values)
  apply (subst retry_found_flag, simp add: doubleLoop_values)
  apply (subst retry_found_flag, simp add: doubleLoop_values)
  done

lemma retry_miss_sleeps:
  assumes "\<forall>t\<in>set [0, 100, 300, 700, 1500, 3100]. visible view t from addr = None"
  shows "fst (snd (retryDomainLookup view 0 from addr 0)) = [100, 200, 400, 800, 1600]"
  using assms
  apply (subst retry_sleeps, simp add: doubleLoop_values)
  apply (subst retry_sleeps, simp add: doubleLoop_values)
  apply (subst retry_sleeps, simp add: doubleLoop_values)
  apply (subst retry_sleeps, simp add: doubleLoop_values)
  apply (subst retry_sleeps, simp add: doubleLoop_values)
  apply (subst retry_sleeps, simp add: doubleLoop_values)
  done

lemma DomainForIP_miss:
  "snd (fst (retryDomainLookup view 0 from addr 0)) = False \<Longrightarrow>
     fst (DomainForIP c view from addr updatedAt) = ([], False) \<and>
     fst (snd (DomainForIP c view from addr updatedAt)) = fst (snd (retryDomainLookup view 0 from addr 0))"
  by (simp add: DomainForIP_def case_prod_unfold)

text \<open>
  C2 (amended). A lookup started at time 0 tries at the times 0, 100, 300, 700, 1500
  and 3100: it reports a miss exactly when the pair is absent at all six of them, and
  then it has slept 100, 200, 400, 800 and 1600 milliseconds, in this order, before
  DomainForIP returns the empty string and false. These are six attempts and five
  retries, 3100 milliseconds in all.
\<close>

theorem retry_schedule:
  "(snd (fst (retryDomainLookup view 0 from addr 0)) = False \<longleftrightarrow>
      (\<forall>t\<in>set [0, 100, 300, 700, 1500, 3100]. visible view t from addr = None)) \<and>
   (snd (fst (retryDomainLookup view 0 from addr 0)) = False \<longrightarrow>
      fst (snd (retryDomainLookup view 0 from addr 0)) = [100, 200, 400, 800, 1600] \<and>
      fst (DomainForIP c view from addr updatedAt) = ([], False) \<and>
      fst (snd (DomainForIP c view from addr updatedAt)) = [100, 200, 400, 800, 1600])"
  using retry_found_iff[of view "from" addr] retry_miss_sleeps[of view "from" addr]
    DomainForIP_miss[of view "from" addr c updatedAt]
  by auto

lemma demoPool_visible: "visible (\<lambda>t. demoPool) t 7 (V4 1) = None"
  by (simp add: visible_def demoPool_def NewConsensusIPPool_def)

lemma lateView_visible:
  "visible lateView t 7 (V4 1) =
     (if t < 3100 then None else Some \<lparr>Domain' = ''a.example'', LastUsed = 10\<rparr>)"
  by (simp add: visible_def lateView_def demoPool_def NewConsensusIPPool_def demoPoolA_def storePeer_def
      demoPeerA_def)

text \<open>
  The claim as first stated has five attempts and 1500 time-units: on a pool that never
  learns the pair the lookup sleeps five times, 3100 milliseconds in all, and a pair
  that appears only after 1500 milliseconds is still found, by the sixth attempt.
\<close>

theorem retry_schedule_counterexample:
  "retryDomainLookup (\<lambda>t. demoPool) 0 7 (V4 1) 0 =
     ((zeroWhereWhen, False), [100, 200, 400, 800, 1600],
      [(''DomainForIP: peer state absent for: %d'', ArgNode 7)]) \<and>
   sum_list [100, 200, 400, 800, 1600] = (3100 :: int) \<and>
   visible lateView 1500 7 (V4 1) = None \<and>
   fst (DomainForIP demoCodec lateView 7 (V4 1) 5000) = (''a.example'', True) \<and>
   fst (snd (DomainForIP demoCodec lateView 7 (V4 1) 5000)) = [100, 200, 400, 800, 1600]"
proof -
  have 1: "retryDomainLookup (\<lambda>t. demoPool) 0 7 (V4 1) 0 =
     ((zeroWhereWhen, False), [100, 200, 400, 800, 1600],
      [(''DomainForIP: peer state absent for: %d'', ArgNode 7)])"
    by (simp add: retryDomainLookup.simps doubleLoop.simps demoPool_def NewConsensusIPPool_def)
  have 2: "retryDomainLookup lateView 0 7 (V4 1) 0 =
     ((\<lparr>Domain' = ''a.example'', LastUsed = 10\<rparr>, True), [100, 200, 400, 800, 1600], [])"
    by (simp add: retry_miss_step retry_hit lateView_visible doubleLoop_values)
  show ?thesis
    using 1 2 by (simp add: lateView_visible DomainForIP_def)
qed

theorem retry_schedule_witness:
  "visible (\<lambda>t. demoPool) 0 7 (V4 1) = None \<and> visible (\<lambda>t. demoPool) 100 7 (V4 1) = None \<and>
   visible (\<lambda>t. demoPool) 300 7 (V4 1) = None \<and> visible (\<lambda>t. demoPool) 700 7 (V4 1) = None \<and>
   visible (\<lambda>t. demoPool) 1500 7 (V4 1) = None \<and> visible (\<lambda>t. demoPool) 3100 7 (V4 1) = None \<and>
   snd (fst (retryDomainLookup (\<lambda>t. demoPool) 0 7 (V4 1) 0)) = False \<and>
   fst (snd (retryDomainLookup (\<lambda>t. demoPool) 0 7 (V4 1) 0)) = [100, 200, 400, 800, 1600] \<and>
   fst (DomainForIP demoCodec (\<lambda>t. demoPool) 7 (V4 1) 5000) = ([], False) \<and>
   fst (snd (DomainForIP demoCodec (\<lambda>t. demoPool) 7 (V4 1) 5000)) = [100, 200, 400, 800, 1600]"
  using retry_schedule[of "\<lambda>t. demoPool" 7 "V4 1" demoCodec 5000]
  by (simp add: demoPool_visible)

lemma retryDomainLookup_view:
  "(\<And>t. perPeerMap (view1 t) = perPeerMap (view2 t)) \<Longrightarrow>
     retryDomainLookup view1 clock from addr n = retryDomainLookup view2 clock from addr n"
proof (induction view1 clock "from" addr n rule: retryDomainLookup.induct)
  case (1 view clock "from" addr n)
  have eq: "perPeerMap (view clock) = perPeerMap (view2 clock)" using "1.prems" by simp
  show ?case
  proof (cases "(case perPeerMap (view2 clock) from of None \<Rightarrow> None | Some ps \<Rightarrow> addrToDomain ps addr)")
    case (Some ww)
    then show ?thesis
      by (subst (1 2) retryDomainLookup.simps) (simp add: eq)
  next
    case None
    show ?thesis
    proof (cases "4 < n")
      case True
      with None show ?thesis
        by (subst (1 2) retryDomainLookup.simps) (simp add: eq)
    next
      case False
      have "retryDomainLookup view (clock + doubleLoop 0 n 100) from addr (n + 1) =
            retryDomainLookup view2 (clock + doubleLoop 0 n 100) from addr (n + 1)"
        using None False eq "1.prems" by (intro "1.IH") simp_all
      with None False show ?thesis
        by (subst (1 2) retryDomainLookup.simps) (simp add: eq Let_def)
    qed
  qed
qed

lemma DomainForIP_found:
  "retryDomainLookup view 0 from addr 0 = ((ww, True), sleeps, logs) \<Longrightarrow>
     DomainForIP c view from addr updatedAt =
       ((Domain' ww, True), sleeps, logs,
        Some (refreshGoroutine c (view (sum_list sleeps)) from addr (Domain' ww) updatedAt))"
  by (simp add: DomainForIP_def)

lemma DomainForIP_not_found:
  "retryDomainLookup view 0 from addr 0 = ((ww, False), sleeps, logs) \<Longrightarrow>
     DomainForIP c view from addr updatedAt = (([], False), sleeps, logs, None)"
  by (simp add: DomainForIP_def)

text \<open>
  C3 (amended). What DomainForIP returns to its caller is fixed by the per-peer maps the
  lookup reads: two runs over the same maps return the same pair, whatever the codec and
  the consensus handle of the refresh. A lookup that misses starts no goroutine. A
  lookup that finds its entry starts one, and the refresh does not stop at logging: when
  the engine refuses the command, markLastUsed logs the raft error and returns it, when
  the state machine's result carries an error, markLastUsed logs a line and returns that
  error, when the arguments cannot be encoded it returns the error without a line, and
  in all three cases the goroutine DomainForIP started panics with the error; with no
  consensus handle it panics on the nil handle. Only a result without error lets it
  finish.
\<close>

theorem refresh_failure_panics:
  "((\<forall>t. perPeerMap (view1 t) = perPeerMap (view2 t)) \<longrightarrow>
      fst (DomainForIP c1 view1 from addr updatedAt) = fst (DomainForIP c2 view2 from addr updatedAt)) \<and>
   (\<forall>ww sleeps logs.
      retryDomainLookup view 0 from addr 0 = ((ww, False), sleeps, logs) \<longrightarrow>
      DomainForIP c view from addr updatedAt = (([], False), sleeps, logs, None)) \<and>
   (\<forall>ww sleeps logs.
      retryDomainLookup view 0 from addr 0 = ((ww, True), sleeps, logs) \<longrightarrow>
      (\<forall>err.
         marshalMarkLastUsedArgs c
           \<lparr>mlu_NodeID = from, mlu_Addr = addr, mlu_Domain = Domain' ww, mlu_UpdatedAt = updatedAt\<rparr> = Inl err \<longrightarrow>
         markLastUsed c (view (sum_list sleeps)) from addr (Domain' ww) updatedAt = Returns (Some err, []) \<and>
         DomainForIP c view from addr updatedAt =
           ((Domain' ww, True), sleeps, logs, Some (Panics (PanicError err)))) \<and>
      (\<forall>bs.
         marshalMarkLastUsedArgs c
           \<lparr>mlu_NodeID = from, mlu_Addr = addr, mlu_Domain = Domain' ww, mlu_UpdatedAt = updatedAt\<rparr> = Inr bs \<longrightarrow>
         (consensus (view (sum_list sleeps)) = None \<longrightarrow>
            DomainForIP c view from addr updatedAt =
              ((Domain' ww, True), sleeps, logs, Some (Panics NilDereference))) \<and>
         (\<forall>ExecuteCommand.
            consensus (view (sum_list sleeps)) = Some ExecuteCommand \<longrightarrow>
            (\<forall>err.
               ExecuteCommand \<lparr>Name = ''markLastUsed'', Args = bs\<rparr> = Inl err \<longrightarrow>
               markLastUsed c (view (sum_list sleeps)) from addr (Domain' ww) updatedAt =
                 Returns (Some err, [(''markLastUsed: raft error executing command: %v'', ArgErr (Some err))]) \<and>
               DomainForIP c view from addr updatedAt =
                 ((Domain' ww, True), sleeps, logs, Some (Panics (PanicError err)))) \<and>
            (\<forall>result err.
               ExecuteCommand \<lparr>Name = ''markLastUsed'', Args = bs\<rparr> = Inr result \<and> Err result = Some err \<longrightarrow>
               markLastUsed c (view (sum_list sleeps)) from addr (Domain' ww) updatedAt =
                 Returns (Some err, [(''markLastUsed: error returned from state machine: %v'', ArgErr None)]) \<and>
               DomainForIP c view from addr updatedAt =
                 ((Domain' ww, True), sleeps, logs, Some (Panics (PanicError err)))) \<and>
            (\<forall>result.
               ExecuteCommand \<lparr>Name = ''markLastUsed'', Args = bs\<rparr> = Inr result \<and> Err result = None \<longrightarrow>
               markLastUsed c (view (sum_list sleeps)) from addr (Domain' ww) updatedAt = Returns (None, []) \<and>
               DomainForIP c view from addr updatedAt =
                 ((Domain' ww, True), sleeps, logs, Some (Returns []))))))"
proof (intro conjI allI impI)
  assume "\<forall>t. perPeerMap (view1 t) = perPeerMap (view2 t)"
  then have "retryDomainLookup view1 0 from addr 0 = retryDomainLookup view2 0 from addr 0"
    by (intro retryDomainLookup_view) simp
  then show "fst (DomainForIP c1 view1 from addr updatedAt) = fst (DomainForIP c2 view2 from addr updatedAt)"
    by (simp add: DomainForIP_def case_prod_unfold)
next
  fix ww sleeps logs
  assume "retryDomainLookup view 0 from addr 0 = ((ww, False), sleeps, logs)"
  then show "DomainForIP c view from addr updatedAt = (([], False), sleeps, logs, None)"
    by (rule DomainForIP_not_found)
next
  fix ww sleeps logs err
  assume look: "retryDomainLookup view 0 from addr 0 = ((ww, True), sleeps, logs)"
    and m: "marshalMarkLastUsedArgs c
           \<lparr>mlu_NodeID = from, mlu_Addr = addr, mlu_Domain = Domain' ww, mlu_UpdatedAt = updatedAt\<rparr> = Inl err"
  from m show mk: "markLastUsed c (view (sum_list sleeps)) from addr (Domain' ww) updatedAt = Returns (Some err, [])"
    by (simp add: markLastUsed_def)
  show "DomainForIP c view from addr updatedAt =
           ((Domain' ww, True), sleeps, logs, Some (Panics (PanicError err)))"
    unfolding DomainForIP_found[OF look] by (simp add: refreshGoroutine_def mk)
next
  fix ww sleeps logs bs
  assume look: "retryDomainLookup view 0 from addr 0 = ((ww, True), sleeps, logs)"
    and m: "marshalMarkLastUsedArgs c
           \<lparr>mlu_NodeID = from, mlu_Addr = addr, mlu_Domain = Domain' ww, mlu_UpdatedAt = updatedAt\<rparr> = Inr bs"
    and nil: "consensus (view (sum_list sleeps)) = None"
  show "DomainForIP c view from addr updatedAt =
              ((Domain' ww, True), sleeps, logs, Some (Panics NilDereference))"
    unfolding DomainForIP_found[OF look] by (simp add: refreshGoroutine_def markLastUsed_def m nil)
next
  fix ww sleeps logs bs ExecuteCommand err
  assume look: "retryDomainLookup view 0 from addr 0 = ((ww, True), sleeps, logs)"
    and m: "marshalMarkLastUsedArgs c
           \<lparr>mlu_NodeID = from, mlu_Addr = addr, mlu_Domain = Domain' ww, mlu_UpdatedAt = updatedAt\<rparr> = Inr bs"
    and h: "consensus (view (sum_list sleeps)) = Some ExecuteCommand"
    and e: "ExecuteCommand \<lparr>Name = ''markLastUsed'', Args = bs\<rparr> = Inl err"
  show mk: "markLastUsed c (view (sum_list sleeps)) from addr (Domain' ww) updatedAt =
                 Returns (Some err, [(''markLastUsed: raft error executing command: %v'', ArgErr (Some err))])"
    by (simp add: markLastUsed_def m h e)
  show "DomainForIP c view from addr updatedAt =
                 ((Domain' ww, True), sleeps, logs, Some (Panics (PanicError err)))"
    unfolding DomainForIP_found[OF look] by (simp add: refreshGoroutine_def mk)
next
  fix ww sleeps logs bs ExecuteCommand result err
  assume look: "retryDomainLookup view 0 from addr 0 = ((ww, True), sleeps, logs)"
    and m: "marshalMarkLastUsedArgs c
           \<lparr>mlu_NodeID = from, mlu_Addr = addr, mlu_Domain = Domain' ww, mlu_UpdatedAt = updatedAt\<rparr> = Inr bs"
    and h: "consensus (view (sum_list sleeps)) = Some ExecuteCommand"
    and e: "ExecuteCommand \<lparr>Name = ''markLastUsed'', Args = bs\<rparr> = Inr result \<and> Err result = Some err"
  show mk: "markLastUsed c (view (sum_list sleeps)) from addr (Domain' ww) updatedAt =
                 Returns (Some err, [(''markLastUsed: error returned from state machine: %v'', ArgErr None)])"
    by (simp add: markLastUsed_def m h e)
  show "DomainForIP c view from addr updatedAt =
                 ((Domain' ww, True), sleeps, logs, Some (Panics (PanicError err)))"
    unfolding DomainForIP_found[OF look] by (simp add: refreshGoroutine_def mk)
next
  fix ww sleeps logs bs ExecuteCommand result
  assume look: "retryDomainLookup view 0 from addr 0 = ((ww, True), sleeps, logs)"
    and m: "marshalMarkLastUsedArgs c
           \<lparr>mlu_NodeID = from, mlu_Addr = addr, mlu_Domain = Domain' ww, mlu_UpdatedAt = updatedAt\<rparr> = Inr bs"
    and h: "consensus (view (sum_list sleeps)) = Some ExecuteCommand"
    and e: "ExecuteCommand \<lparr>Name = ''markLastUsed'', Args = bs\<rparr> = Inr result \<and> Err result = None"
  show mk: "markLastUsed c (view (sum_list sleeps)) from addr (Domain' ww) updatedAt = Returns (None, [])"
    by (simp add: markLastUsed_def m h e)
  show "DomainForIP c view from addr updatedAt =
                 ((Domain' ww, True), sleeps, logs, Some (Returns []))"
    unfolding DomainForIP_found[OF look] by (simp add: refreshGoroutine_def mk)
qed

text \<open>
  The claim as first stated lets a failed refresh end in a log line: with a consensus
  handle that refuses every command, the read returns its domain and the goroutine it
  started panics.
\<close>

theorem refresh_failure_counterexample:
  "DomainForIP demoCodec (\<lambda>t. demoPoolALed) 7 (V4 1) 99 =
     ((''a.example'', True), [], [], Some (Panics (PanicError (Error ''leadership lost''))))"
  by (simp add: DomainForIP_def retryDomainLookup.simps demoPoolALed_def demoPoolA_def storePeer_def
      demoPeerA_def refreshGoroutine_def markLastUsed_def demoCodec_def)

theorem refresh_failure_panics_witness:
  "fst (DomainForIP demoCodec (\<lambda>t. demoPoolALed) 7 (V4 1) 99) = fst (DomainForIP demoCodec (\<lambda>t. demoPoolA) 7 (V4 1) 99) \<and>
   DomainForIP demoCodec (\<lambda>t. demoPool) 7 (V4 1) 99 =
     (([], False), [100, 200, 400, 800, 1600], [(''DomainForIP: peer state absent for: %d'', ArgNode 7)], None) \<and>
   markLastUsed demoCodec demoPoolALed 7 (V4 1) ''a.example'' 99 =
     Returns (Some (Error ''leadership lost''),
              [(''markLastUsed: raft error executing command: %v'', ArgErr (Some (Error ''leadership lost'')))]) \<and>
   DomainForIP demoCodec (\<lambda>t. demoPoolALed) 7 (V4 1) 99 =
     ((''a.example'', True), [], [], Some (Panics (PanicError (Error ''leadership lost'')))) \<and>
   markLastUsed demoCodec demoPoolAFailing 7 (V4 1) ''a.example'' 99 =
     Returns (Some (Error ''ip pool exhausted''),
              [(''markLastUsed: error returned from state machine: %v'', ArgErr None)]) \<and>
   DomainForIP demoCodec (\<lambda>t. demoPoolAFailing) 7 (V4 1) 99 =
     ((''a.example'', True), [], [], Some (Panics (PanicError (Error ''ip pool exhausted'')))) \<and>
   markLastUsed demoCodec demoPoolAOk 7 (V4 1) ''a.example'' 99 = Returns (None, []) \<and>
   DomainForIP demoCodec (\<lambda>t. demoPoolAOk) 7 (V4 1) 99 = ((''a.example'', True), [], [], Some (Returns [])) \<and>
   DomainForIP demoCodec (\<lambda>t. demoPoolA) 7 (V4 1) 99 = ((''a.example'', True), [], [], Some (Panics NilDereference)) \<and>
   markLastUsed failingMarshal demoPoolAOk 7 (V4 1) ''a.example'' 99 =
     Returns (Some (Error ''json: unsupported value''), []) \<and>
   DomainForIP failingMarshal (\<lambda>t. demoPoolAOk) 7 (V4 1) 99 =
     ((''a.example'', True), [], [], Some (Panics (PanicError (Error ''json: unsupported value''))))"
proof -
  have same: "\<forall>t. perPeerMap ((\<lambda>t. demoPoolALed) t) = perPeerMap ((\<lambda>t. demoPoolA) t)"
    by (simp add: demoPoolALed_def)
  have look: "\<And>x. perPeerMap x = perPeerMap demoPoolA \<Longrightarrow>
      retryDomainLookup (\<lambda>t. x) 0 7 (V4 1) 0 = ((\<lparr>Domain' = ''a.example'', LastUsed = 10\<rparr>, True), [], [])"
    by (simp add: retryDomainLookup.simps demoPoolA_def storePeer_def demoPeerA_def)
  have miss: "retryDomainLookup (\<lambda>t. demoPool) 0 7 (V4 1) 0 =
     ((zeroWhereWhen, False), [100, 200, 400, 800, 1600], [(''DomainForIP: peer state absent for: %d'', ArgNode 7)])"
    by (simp add: retryDomainLookup.simps doubleLoop.simps demoPool_def NewConsensusIPPool_def)
  have m: "marshalMarkLastUsedArgs demoCodec
             \<lparr>mlu_NodeID = 7, mlu_Addr = V4 1, mlu_Domain = ''a.example'', mlu_UpdatedAt = 99\<rparr> = Inr [7, 99]"
    by (simp add: demoCodec_def)
  have mf: "marshalMarkLastUsedArgs failingMarshal
             \<lparr>mlu_NodeID = 7, mlu_Addr = V4 1, mlu_Domain = ''a.example'', mlu_UpdatedAt = 99\<rparr> =
            Inl (Error ''json: unsupported value'')"
    by (simp add: failingMarshal_def)
  have h: "consensus demoPoolALed = Some (\<lambda>cmd. Inl (Error ''leadership lost''))"
    "consensus demoPoolAFailing = Some (\<lambda>cmd. Inr \<lparr>Err = Some (Error ''ip pool exhausted''), Result = []\<rparr>)"
    "consensus demoPoolAOk = Some (\<lambda>cmd. Inr \<lparr>Err = None, Result = []\<rparr>)"
    "consensus demoPoolA = None"
    by (simp_all add: demoPoolALed_def demoPoolAFailing_def demoPoolAOk_def demoPoolA_def storePeer_def
        demoPool_def NewConsensusIPPool_def)
  have pm: "perPeerMap demoPoolALed = perPeerMap demoPoolA" "perPeerMap demoPoolAFailing = perPeerMap demoPoolA"
    "perPeerMap demoPoolAOk = perPeerMap demoPoolA"
    by (simp_all add: demoPoolALed_def demoPoolAFailing_def demoPoolAOk_def)
  note t = refresh_failure_panics
  from t[of "\<lambda>t. demoPoolALed" "\<lambda>t. demoPoolA" demoCodec 7 "V4 1" 99 demoCodec "\<lambda>t. demoPool" demoCodec] same miss
  have 1: "fst (DomainForIP demoCodec (\<lambda>t. demoPoolALed) 7 (V4 1) 99) = fst (DomainForIP demoCodec (\<lambda>t. demoPoolA) 7 (V4 1) 99)"
    and 2: "DomainForIP demoCodec (\<lambda>t. demoPool) 7 (V4 1) 99 =
     (([], False), [100, 200, 400, 800, 1600], [(''DomainForIP: peer state absent for: %d'', ArgNode 7)], None)"
    by simp_all
  from t[of "\<lambda>t. demoPoolALed" "\<lambda>t. demoPoolA" demoCodec 7 "V4 1" 99 demoCodec "\<lambda>t. demoPoolALed" demoCodec]
    look[OF pm(1)] m h(1)
  have 3: "markLastUsed demoCodec demoPoolALed 7 (V4 1) ''a.example'' 99 =
     Returns (Some (Error ''leadership lost''),
              [(''markLastUsed: raft error executing command: %v'', ArgErr (Some (Error ''leadership lost'')))])"
    and 4: "DomainForIP demoCodec (\<lambda>t. demoPoolALed) 7 (V4 1) 99 =
     ((''a.example'', True), [], [], Some (Panics (PanicError (Error ''leadership lost''))))"
    by simp_all
  from t[of "\<lambda>t. demoPoolALed" "\<lambda>t. demoPoolA" demoCodec 7 "V4 1" 99 demoCodec "\<lambda>t. demoPoolAFailing" demoCodec]
    look[OF pm(2)] m h(2)
  have 5: "markLastUsed demoCodec demoPoolAFailing 7 (V4 1) ''a.example'' 99 =
     Returns (Some (Error ''ip pool exhausted''),
              [(''markLastUsed: error returned from state machine: %v'', ArgErr None)])"
    and 6: "DomainForIP demoCodec (\<lambda>t. demoPoolAFailing) 7 (V4 1) 99 =
     ((''a.example'', True), [], [], Some (Panics (PanicError (Error ''ip pool exhausted''))))"
    by simp_all
  from t[of "\<lambda>t. demoPoolALed" "\<lambda>t. demoPoolA" demoCodec 7 "V4 1" 99 demoCodec "\<lambda>t. demoPoolAOk" demoCodec]
    look[OF pm(3)] m h(3)
  have 7: "markLastUsed demoCodec demoPoolAOk 7 (V4 1) ''a.example'' 99 = Returns (None, [])"
    and 8: "DomainForIP demoCodec (\<lambda>t. demoPoolAOk) 7 (V4 1) 99 = ((''a.example'', True), [], [], Some (Returns []))"
    by simp_all
  from t[of "\<lambda>t. demoPoolALed" "\<lambda>t. demoPoolA" demoCodec 7 "V4 1" 99 demoCodec "\<lambda>t. demoPoolA" demoCodec]
    look[OF refl] m h(4)
  have 9: "DomainForIP demoCodec (\<lambda>t. demoPoolA) 7 (V4 1) 99 = ((''a.example'', True), [], [], Some (Panics NilDereference))"
    by simp
  from t[of "\<lambda>t. demoPoolALed" "\<lambda>t. demoPoolA" demoCodec 7 "V4 1" 99 demoCodec "\<lambda>t. demoPoolAOk" failingMarshal]
    look[OF pm(3)] mf
  have 10: "markLastUsed failingMarshal demoPoolAOk 7 (V4 1) ''a.example'' 99 =
     Returns (Some (Error ''json: unsupported value''), [])"
    and 11: "DomainForIP failingMarshal (\<lambda>t. demoPoolAOk) 7 (V4 1) 99 =
     ((''a.example'', True), [], [], Some (Panics (PanicError (Error ''json: unsupported value''))))"
    by simp_all
  from 1 2 3 4 5 6 7 8 9 10 11 show ?thesis by blast
qed

section \<open>Reuse of an expired address\<close>

lemma retry_now:
  "perPeerMap (view clock) from = Some ps \<Longrightarrow> addrToDomain ps addr = Some ww \<Longrightarrow>
     retryDomainLookup view clock from addr n = ((ww, True), [], [])"
  by (subst retryDomainLookup.simps) simp

text \<open>
  C8 (amended). Let the ranges of the address set be valid and none end at the last
  address of its family. Let a peer hold address \<open>X\<close> of the set with a timestamp before
  the reuse deadline, let every other address of the set be recorded for the peer with
  a timestamp not before the deadline, and let \<open>d\<close> be a domain other than the one \<open>X\<close> is
  recorded for that has no forward entry with a reverse entry. Then the checkout for
  \<open>d\<close> returns \<open>X\<close>, maps \<open>d\<close> to \<open>X\<close>, removes the forward entry of the domain \<open>X\<close> was
  recorded for, records \<open>X\<close> for \<open>d\<close> at the time of the checkout, and a later
  resolution of \<open>X\<close> returns \<open>d\<close>.
\<close>

theorem reuse_correctness:
  assumes wf: "\<forall>r\<in>set (IPSet ipp). validRange r \<and> \<not> endsAtTop r"
    and peer: "perPeerMap ipp nid = Some ps"
    and inset: "\<exists>r\<in>set (IPSet ipp). Contains r X"
    and old: "addrToDomain ps X = Some ww"
    and expired: "Before (LastUsed ww) reuseDeadline"
    and others: "\<forall>r\<in>set (IPSet ipp). \<forall>a. Contains r a \<and> a \<noteq> X \<longrightarrow>
                   (\<exists>w. addrToDomain ps a = Some w \<and> \<not> Before (LastUsed w) reuseDeadline)"
    and diff: "d \<noteq> Domain' ww"
    and unmapped: "\<forall>e. domainToAddr ps d = Some e \<longrightarrow> addrToDomain ps e = None"
  shows "applyCheckoutAddr ipp nid d reuseDeadline now =
           Some (storePeer ipp nid
                   \<lparr>domainToAddr = ((domainToAddr ps)(d \<mapsto> X))(Domain' ww := None),
                    addrToDomain = (addrToDomain ps)(X \<mapsto> \<lparr>Domain' = d, LastUsed = now\<rparr>)\<rparr>,
                 Inr X) \<and>
         ((domainToAddr ps)(d \<mapsto> X, Domain' ww := None)) d = Some X \<and>
         ((domainToAddr ps)(d \<mapsto> X, Domain' ww := None)) (Domain' ww) = None \<and>
         fst (DomainForIP c
                (\<lambda>t. storePeer ipp nid
                   \<lparr>domainToAddr = ((domainToAddr ps)(d \<mapsto> X))(Domain' ww := None),
                    addrToDomain = (addrToDomain ps)(X \<mapsto> \<lparr>Domain' = d, LastUsed = now\<rparr>)\<rparr>)
                nid X later) = (d, True)"
proof -
  define ps' where "ps' = \<lparr>domainToAddr = ((domainToAddr ps)(d \<mapsto> X))(Domain' ww := None),
                           addrToDomain = (addrToDomain ps)(X \<mapsto> \<lparr>Domain' = d, LastUsed = now\<rparr>)\<rparr>"
  have el: "eligible (addrToDomain ps) reuseDeadline X"
    using old expired by (simp add: eligible_def)
  have oth: "\<forall>r\<in>set (IPSet ipp). \<forall>a. Contains r a \<and> a \<noteq> X \<longrightarrow> \<not> eligible (addrToDomain ps) reuseDeadline a"
    using others by (fastforce simp: eligible_def)
  have "scanRanges (addrToDomain ps) reuseDeadline (IPSet ipp) = Some (Inr (candidate (addrToDomain ps) X))"
    using wf inset el oth by (rule scanRanges_only)
  then have scan: "unusedIPV4 ps (IPSet ipp) reuseDeadline = Some (Inr (X, True, Domain' ww))"
    using old by (simp add: unusedIPV4_def candidate_def)
  have alloc: "allocateAddr ipp nid ps d reuseDeadline now = Some (storePeer ipp nid ps', Inr X)"
    using scan by (simp add: allocateAddr_def ps'_def)
  have "applyCheckoutAddr ipp nid d reuseDeadline now = allocateAddr ipp nid ps d reuseDeadline now"
    using peer unmapped by (cases "domainToAddr ps d") (simp_all add: applyCheckoutAddr_def)
  with alloc have co: "applyCheckoutAddr ipp nid d reuseDeadline now = Some (storePeer ipp nid ps', Inr X)"
    by simp
  have stored: "perPeerMap (storePeer ipp nid ps') nid = Some ps'" by (simp add: storePeer_def)
  have a: "addrToDomain ps' X = Some \<lparr>Domain' = d, LastUsed = now\<rparr>" by (simp add: ps'_def)
  have look: "fst (DomainForIP c (\<lambda>t. storePeer ipp nid ps') nid X later) = (d, True)"
    using retry_now[of "\<lambda>t. storePeer ipp nid ps'" 0 nid ps' X _ 0, OF stored a]
    by (simp add: DomainForIP_def)
  have "domainToAddr ps' d = Some X \<and> domainToAddr ps' (Domain' ww) = None"
    using diff by (simp add: ps'_def)
  with co look show ?thesis
    unfolding ps'_def by simp
qed

lemma demoAB_facts:
  "perPeerMap demoPoolAB 7 = Some demoPeerAB"
  "IPSet demoPoolAB = [(V4 1, V4 2)]"
  "addrToDomain demoPeerAB (V4 1) = Some \<lparr>Domain' = ''a.example'', LastUsed = 10\<rparr>"
  "addrToDomain demoPeerAB (V4 2) = Some \<lparr>Domain' = ''b.example'', LastUsed = 100\<rparr>"
  "domainToAddr demoPeerAB ''c.example'' = None"
  "domainToAddr demoPeerAB ''b.example'' = Some (V4 2)"
  by (simp_all add: demoPoolAB_def demoPeerAB_def storePeer_def demoPool_def NewConsensusIPPool_def)

lemma demo_range_other:
  "Contains (V4 1, V4 2) a \<Longrightarrow> a \<noteq> V4 1 \<Longrightarrow> a = V4 2"
proof (cases a)
  case (V4 x)
  assume "Contains (V4 1, V4 2) a" "a \<noteq> V4 1"
  with V4 have "1 \<le> x" "x \<le> 2" "x \<noteq> 1" by simp_all
  then have "x = 2" by unat_arith
  with V4 show ?thesis by simp
qed simp_all

text \<open>
  The claim as first stated asks nothing of \<open>d\<close> but that it differs from the old domain:
  for a domain that holds another, unexpired address the checkout takes the fast path
  and returns that address, and the expired one stays where it was.
\<close>

theorem reuse_correctness_counterexample:
  "addrToDomain demoPeerAB (V4 1) = Some \<lparr>Domain' = ''a.example'', LastUsed = 10\<rparr> \<and> Before 10 50 \<and>
   addrToDomain demoPeerAB (V4 2) = Some \<lparr>Domain' = ''b.example'', LastUsed = 100\<rparr> \<and> \<not> Before 100 50 \<and>
   applyCheckoutAddr demoPoolAB 7 ''b.example'' 50 200 =
     Some (storePeer demoPoolAB 7
             (demoPeerAB\<lparr>addrToDomain := (addrToDomain demoPeerAB)(V4 2 \<mapsto> \<lparr>Domain' = ''b.example'', LastUsed = 200\<rparr>)\<rparr>),
           Inr (V4 2)) \<and>
   domainToAddr (demoPeerAB\<lparr>addrToDomain := (addrToDomain demoPeerAB)(V4 2 \<mapsto> \<lparr>Domain' = ''b.example'', LastUsed = 200\<rparr>)\<rparr>)
     ''a.example'' = Some (V4 1)"
  by (simp add: demoAB_facts applyCheckoutAddr_def Before_def) (simp add: demoPeerAB_def)

theorem reuse_correctness_witness:
  "applyCheckoutAddr demoPoolAB 7 ''c.example'' 50 200 =
     Some (storePeer demoPoolAB 7
             \<lparr>domainToAddr = [''b.example'' \<mapsto> V4 2, ''c.example'' \<mapsto> V4 1],
              addrToDomain = [V4 1 \<mapsto> \<lparr>Domain' = ''c.example'', LastUsed = 200\<rparr>,
                              V4 2 \<mapsto> \<lparr>Domain' = ''b.example'', LastUsed = 100\<rparr>]\<rparr>,
           Inr (V4 1)) \<and>
   fst (DomainForIP demoCodec
          (\<lambda>t. storePeer demoPoolAB 7
             \<lparr>domainToAddr = [''b.example'' \<mapsto> V4 2, ''c.example'' \<mapsto> V4 1],
              addrToDomain = [V4 1 \<mapsto> \<lparr>Domain' = ''c.example'', LastUsed = 200\<rparr>,
                              V4 2 \<mapsto> \<lparr>Domain' = ''b.example'', LastUsed = 100\<rparr>]\<rparr>)
          7 (V4 1) 300) = (''c.example'', True)"
proof -
  have wf: "\<forall>r\<in>set (IPSet demoPoolAB). validRange r \<and> \<not> endsAtTop r"
    by (simp add: demoAB_facts endsAtTop_def)
  have inset: "\<exists>r\<in>set (IPSet demoPoolAB). Contains r (V4 1)"
    by (simp add: demoAB_facts)
  have ex: "Before (LastUsed \<lparr>Domain' = ''a.example'', LastUsed = 10\<rparr>) 50"
    by (simp add: Before_def)
  have others: "\<forall>r\<in>set (IPSet demoPoolAB). \<forall>a. Contains r a \<and> a \<noteq> V4 1 \<longrightarrow>
                   (\<exists>w. addrToDomain demoPeerAB a = Some w \<and> \<not> Before (LastUsed w) 50)"
  proof (intro ballI allI impI)
    fix r a assume "r \<in> set (IPSet demoPoolAB)" and "Contains r a \<and> a \<noteq> V4 1"
    then have "a = V4 2" using demo_range_other by (simp add: demoAB_facts)
    then show "\<exists>w. addrToDomain demoPeerAB a = Some w \<and> \<not> Before (LastUsed w) 50"
      by (simp add: demoAB_facts Before_def)
  qed
  have diff: "''c.example'' \<noteq> Domain' \<lparr>Domain' = ''a.example'', LastUsed = 10\<rparr>" by simp
  have un: "\<forall>e. domainToAddr demoPeerAB ''c.example'' = Some e \<longrightarrow> addrToDomain demoPeerAB e = None"
    by (simp add: demoAB_facts)
  have d2a: "(domainToAddr demoPeerAB)(''c.example'' \<mapsto> V4 1, ''a.example'' := None) =
             [''b.example'' \<mapsto> V4 2, ''c.example'' \<mapsto> V4 1]"
    by (auto simp: demoPeerAB_def)
  have a2d: "(addrToDomain demoPeerAB)(V4 1 \<mapsto> \<lparr>Domain' = ''c.example'', LastUsed = 200\<rparr>) =
             [V4 1 \<mapsto> \<lparr>Domain' = ''c.example'', LastUsed = 200\<rparr>,
              V4 2 \<mapsto> \<lparr>Domain' = ''b.example'', LastUsed = 100\<rparr>]"
    by (auto simp: demoPeerAB_def)
  from reuse_correctness[OF wf demoAB_facts(1) inset demoAB_facts(3) ex others diff un, of 200 demoCodec 300]
  show ?thesis by (simp add: d2a a2d)
qed

section \<open>The scan at the top of the address space\<close>

text \<open>
  C5. Take the set that holds 255.255.255.255 alone. The first checkout of a peer gets
  that address. From then on, while the entry has not expired, no address of the set is
  eligible; yet the scan does not fail: it returns the zero address as a free one, and
  the checkout of a second domain records it and hands it out. \<^verbatim>\<open>Next\<close> of the last
  address is the zero address, which \<^verbatim>\<open>Compare\<close> sorts before every valid one, so the
  loop goes on with it.
\<close>

theorem scan_wraps_at_top:
  "applyCheckoutAddr (NewConsensusIPPool [(V4 0xFFFFFFFF, V4 0xFFFFFFFF)]) 7 ''x.example'' 0 100 =
     Some (topPool, Inr (V4 0xFFFFFFFF)) \<and>
   validRange (V4 0xFFFFFFFF, V4 0xFFFFFFFF) \<and>
   \<not> eligible (addrToDomain topPeer) 50 (V4 0xFFFFFFFF) \<and>
   unusedIPV4 topPeer (IPSet topPool) 50 = Some (Inr (Z0 0, False, [])) \<and>
   applyCheckoutAddr topPool 7 ''y.example'' 50 200 =
     Some (storePeer topPool 7
             \<lparr>domainToAddr = [''x.example'' \<mapsto> V4 0xFFFFFFFF, ''y.example'' \<mapsto> Z0 0],
              addrToDomain = [V4 0xFFFFFFFF \<mapsto> \<lparr>Domain' = ''x.example'', LastUsed = 100\<rparr>,
                              Z0 0 \<mapsto> \<lparr>Domain' = ''y.example'', LastUsed = 200\<rparr>]\<rparr>,
           Inr (Z0 0))"
  by (simp add: applyCheckoutAddr_def topPool_def topPeer_def allocateAddr_def unusedIPV4_def
      scanRange.simps[of _ _ _ "V4 0xFFFFFFFF"] scanRange.simps[of _ _ _ "Z0 0"] Before_def storePeer_def
      NewConsensusIPPool_def emptyPeerState_def eligible_def)

section \<open>First fit, away from the top of the address space\<close>

lemma unat_128_bound: "unat (w :: 128 word) < 2 ^ 128"
  using unsigned_less[of w] by simp

lemma unat_32_bound: "unat (w :: 32 word) < 2 ^ 128"
proof -
  have "unat w < 2 ^ 32" using unsigned_less[of w] by simp
  also have "(2::nat) ^ 32 < 2 ^ 128" by simp
  finally show ?thesis .
qed

lemma Compare_less_key: "(Compare a b = - 1) = (addrKey a < addrKey b)"
proof (cases a)
  case (Z0 v)
  then show ?thesis
    using unat_128_bound[of v]
    by (cases b) (auto simp: word_less_nat_alt)
next
  case (V4 v)
  show ?thesis
  proof (cases b)
    case (Z0 w)
    with V4 show ?thesis using unat_128_bound[of w] by simp
  next
    case b: (V4 w)
    with V4 show ?thesis by (auto simp: word_less_nat_alt)
  next
    case (V6 w)
    with V4 show ?thesis using unat_32_bound[of v] by simp
  qed
next
  case (V6 v)
  show ?thesis
  proof (cases b)
    case (Z0 w)
    with V6 show ?thesis using unat_128_bound[of w] by simp
  next
    case (V4 w)
    with V6 show ?thesis using unat_32_bound[of w] by simp
  next
    case b: (V6 w)
    with V6 show ?thesis by (auto simp: word_less_nat_alt)
  qed
qed

lemma Compare_greater_key: "(Compare a b = 1) = (addrKey b < addrKey a)"
proof (cases a)
  case (Z0 v)
  then show ?thesis
    using unat_128_bound[of v]
    by (cases b) (auto simp: word_less_nat_alt)
next
  case (V4 v)
  show ?thesis
  proof (cases b)
    case (Z0 w)
    with V4 show ?thesis using unat_128_bound[of w] by simp
  next
    case b: (V4 w)
    with V4 show ?thesis by (auto simp: word_less_nat_alt)
  next
    case (V6 w)
    with V4 show ?thesis using unat_32_bound[of v] by simp
  qed
next
  case (V6 v)
  show ?thesis
  proof (cases b)
    case (Z0 w)
    with V6 show ?thesis using unat_128_bound[of w] by simp
  next
    case (V4 w)
    with V6 show ?thesis using unat_32_bound[of w] by simp
  next
    case b: (V6 w)
    with V6 show ?thesis by (auto simp: word_less_nat_alt)
  qed
qed

lemma Compare_trans:
  "Compare a b = - 1 \<Longrightarrow> Compare b c = - 1 \<Longrightarrow> Compare a c = - 1"
  unfolding Compare_less_key by simp

lemma Compare_le_less_trans:
  "Compare a b \<noteq> 1 \<Longrightarrow> Compare b c = - 1 \<Longrightarrow> Compare a c = - 1"
  unfolding Compare_less_key Compare_greater_key by simp

lemma Compare_less_le_trans:
  "Compare a b = - 1 \<Longrightarrow> Compare b c \<noteq> 1 \<Longrightarrow> Compare a c = - 1"
  unfolding Compare_less_key Compare_greater_key by simp

lemma Compare_not_less: "Compare b x \<noteq> - 1 \<Longrightarrow> Compare x b \<noteq> 1"
  unfolding Compare_less_key Compare_greater_key by simp

lemma Contains_bounds:
  assumes "validRange r" and "Contains r a"
  shows "Compare (fst r) a \<noteq> 1 \<and> Compare a (snd r) \<noteq> 1"
proof -
  obtain f t where r: "r = (f, t)" by (cases r)
  from assms(1)[unfolded r] show ?thesis
  proof (cases rule: validRange_cases)
    case (v4 v w)
    with assms r obtain y where "a = V4 y" "v \<le> y" "y \<le> w" by (cases a) auto
    with v4 r show ?thesis by auto
  next
    case (v6 v w)
    with assms r obtain y where "a = V6 y" "v \<le> y" "y \<le> w" by (cases a) auto
    with v6 r show ?thesis by auto
  qed
qed

lemma validRange_ordered: "validRange r \<Longrightarrow> Compare (fst r) (snd r) \<noteq> 1"
proof -
  assume v: "validRange r"
  obtain f t where r: "r = (f, t)" by (cases r)
  from v[unfolded r] show ?thesis
    by (cases rule: validRange_cases) (auto simp: r)
qed

lemma word_least:
  fixes y :: "'a::len word"
  assumes "Q y"
  shows "\<exists>x. Q x \<and> (\<forall>u. u < x \<longrightarrow> \<not> Q u)"
proof -
  have "Q (LEAST u. Q u)" using assms by (rule LeastI)
  moreover have "\<forall>u. u < (LEAST u. Q u) \<longrightarrow> \<not> Q u" using not_less_Least by blast
  ultimately show ?thesis by blast
qed

lemma range_least:
  assumes "validRange r" and "Contains r a" and "P a"
  shows "\<exists>x. Contains r x \<and> P x \<and> (\<forall>b. Contains r b \<and> Compare b x = - 1 \<longrightarrow> \<not> P b)"
proof -
  obtain f t where r: "r = (f, t)" by (cases r)
  from assms(1)[unfolded r] show ?thesis
  proof (cases rule: validRange_cases)
    case (v4 v w)
    with assms r obtain y where y: "a = V4 y" "v \<le> y" "y \<le> w" by (cases a) auto
    with assms(3) have "v \<le> y \<and> y \<le> w \<and> P (V4 y)" by simp
    from word_least[where Q = "\<lambda>u. v \<le> u \<and> u \<le> w \<and> P (V4 u)", OF this]
    obtain x where x: "v \<le> x \<and> x \<le> w \<and> P (V4 x)"
      and min: "\<forall>u. u < x \<longrightarrow> \<not> (v \<le> u \<and> u \<le> w \<and> P (V4 u))"
      by blast
    have "\<forall>b. Contains r b \<and> Compare b (V4 x) = - 1 \<longrightarrow> \<not> P b"
    proof (intro allI impI)
      fix b assume b: "Contains r b \<and> Compare b (V4 x) = - 1"
      with r v4 obtain u where u: "b = V4 u" "v \<le> u" "u \<le> w" by (cases b) auto
      with b have "cmpWord u x = - 1" by simp
      then have "u < x" by (simp only: cmpWord_less)
      with min u show "\<not> P b" by simp
    qed
    moreover have "Contains r (V4 x)" using x r v4 by simp
    ultimately show ?thesis using x by blast
  next
    case (v6 v w)
    with assms r obtain y where y: "a = V6 y" "v \<le> y" "y \<le> w" by (cases a) auto
    with assms(3) have "v \<le> y \<and> y \<le> w \<and> P (V6 y)" by simp
    from word_least[where Q = "\<lambda>u. v \<le> u \<and> u \<le> w \<and> P (V6 u)", OF this]
    obtain x where x: "v \<le> x \<and> x \<le> w \<and> P (V6 x)"
      and min: "\<forall>u. u < x \<longrightarrow> \<not> (v \<le> u \<and> u \<le> w \<and> P (V6 u))"
      by blast
    have "\<forall>b. Contains r b \<and> Compare b (V6 x) = - 1 \<longrightarrow> \<not> P b"
    proof (intro allI impI)
      fix b assume b: "Contains r b \<and> Compare b (V6 x) = - 1"
      with r v6 obtain u where u: "b = V6 u" "v \<le> u" "u \<le> w" by (cases b) auto
      with b have "cmpWord u x = - 1" by simp
      then have "u < x" by (simp only: cmpWord_less)
      with min u show "\<not> P b" by simp
    qed
    moreover have "Contains r (V6 x)" using x r v6 by simp
    ultimately show ?thesis using x by blast
  qed
qed

lemma ascending_later:
  assumes "ascending (r # rs)" and "\<forall>q\<in>set (r # rs). validRange q" and "q \<in> set rs" and "Contains q a"
  shows "Compare (snd r) a = - 1"
  using assms
proof (induction rs arbitrary: r)
  case Nil
  then show ?case by simp
next
  case (Cons r' rs)
  have step: "Compare (snd r) (fst r') = - 1" using Cons.prems(1) by simp
  show ?case
  proof (cases "q = r'")
    case True
    with Cons.prems have "Compare (fst r') a \<noteq> 1" using Contains_bounds[of r' a] by simp
    with step show ?thesis by (rule Compare_less_le_trans)
  next
    case False
    with Cons.prems have "q \<in> set rs" by simp
    with Cons.prems have later: "Compare (snd r') a = - 1"
      by (intro Cons.IH) simp_all
    have "validRange r'" using Cons.prems by simp
    then have "Compare (fst r') (snd r') \<noteq> 1" by (rule validRange_ordered)
    with step have "Compare (snd r) (snd r') = - 1" by (rule Compare_less_le_trans)
    then show ?thesis using later by (rule Compare_trans)
  qed
qed

lemma ascending_append: "ascending (pre @ rs) \<Longrightarrow> ascending rs"
proof (induction pre)
  case Nil
  then show ?case by simp
next
  case (Cons p pre)
  then show ?case by (cases "pre @ rs") simp_all
qed

lemma scanRanges_cases:
  assumes wf: "\<forall>r\<in>set rs. validRange r \<and> \<not> endsAtTop r"
  shows "(scanRanges a2d dl rs = Some (Inl (Error ''ip pool exhausted'')) \<and>
          (\<forall>r\<in>set rs. \<forall>a. Contains r a \<longrightarrow> \<not> eligible a2d dl a)) \<or>
         (\<exists>pre r post x. rs = pre @ r # post \<and>
            (\<forall>p\<in>set pre. \<forall>a. Contains p a \<longrightarrow> \<not> eligible a2d dl a) \<and>
            Contains r x \<and> eligible a2d dl x \<and>
            (\<forall>b. Contains r b \<and> Compare b x = - 1 \<longrightarrow> \<not> eligible a2d dl b) \<and>
            scanRanges a2d dl rs = Some (Inr (candidate a2d x)))"
proof (cases "\<exists>r\<in>set rs. \<exists>a. Contains r a \<and> eligible a2d dl a")
  case False
  then have none: "\<forall>r\<in>set rs. \<forall>a. Contains r a \<longrightarrow> \<not> eligible a2d dl a" by blast
  with wf have "scanRanges a2d dl rs = Some (Inl (Error ''ip pool exhausted''))"
    by (intro scanRanges_miss) simp
  with none show ?thesis by simp
next
  case True
  then obtain pre r post where split: "rs = pre @ r # post"
    and hasr: "\<exists>a. Contains r a \<and> eligible a2d dl a"
    and pre: "\<forall>p\<in>set pre. \<not> (\<exists>a. Contains p a \<and> eligible a2d dl a)"
    using split_list_first_prop[of rs "\<lambda>r. \<exists>a. Contains r a \<and> eligible a2d dl a"] by blast
  have vr: "validRange r" using wf split by simp
  from hasr obtain a where "Contains r a" "eligible a2d dl a" by blast
  from range_least[of r a "eligible a2d dl", OF vr this]
  obtain x where x: "Contains r x" "eligible a2d dl x"
    and xmin: "\<forall>b. Contains r b \<and> Compare b x = - 1 \<longrightarrow> \<not> eligible a2d dl b" by blast
  have "\<forall>p\<in>set pre. validRange p \<and> \<not> endsAtTop p \<and> (\<forall>a. Contains p a \<longrightarrow> \<not> eligible a2d dl a)"
    using wf pre split by auto
  from scanRanges_hit[OF this vr x xmin, of post]
  have "scanRanges a2d dl rs = Some (Inr (candidate a2d x))" by (simp add: split)
  with split pre x xmin show ?thesis by blast
qed

text \<open>
  First fit. When the ranges of the address set are valid, ascending and none ends at the last
  address of its family, the scan either fails with the exhaustion error, and then no
  address of the set is eligible, or returns an eligible address of the set that no
  eligible address of the set is below, however stale the others are.
\<close>

theorem unusedIPV4_first_fit:
  assumes wf: "\<forall>r\<in>set ipset. validRange r \<and> \<not> endsAtTop r"
    and asc: "ascending ipset"
  shows "(unusedIPV4 ps ipset dl = Some (Inl (Error ''ip pool exhausted'')) \<and>
          (\<forall>r\<in>set ipset. \<forall>a. Contains r a \<longrightarrow> \<not> eligible (addrToDomain ps) dl a)) \<or>
         (\<exists>x. unusedIPV4 ps ipset dl = Some (Inr (candidate (addrToDomain ps) x)) \<and>
              (\<exists>r\<in>set ipset. Contains r x) \<and> eligible (addrToDomain ps) dl x \<and>
              (\<forall>r\<in>set ipset. \<forall>a. Contains r a \<and> eligible (addrToDomain ps) dl a \<longrightarrow> Compare x a \<noteq> 1))"
  using scanRanges_cases[OF wf, of "addrToDomain ps" dl]
proof
  assume "scanRanges (addrToDomain ps) dl ipset = Some (Inl (Error ''ip pool exhausted'')) \<and>
          (\<forall>r\<in>set ipset. \<forall>a. Contains r a \<longrightarrow> \<not> eligible (addrToDomain ps) dl a)"
  then show ?thesis by (simp add: unusedIPV4_def)
next
  assume "\<exists>pre r post x. ipset = pre @ r # post \<and>
            (\<forall>p\<in>set pre. \<forall>a. Contains p a \<longrightarrow> \<not> eligible (addrToDomain ps) dl a) \<and>
            Contains r x \<and> eligible (addrToDomain ps) dl x \<and>
            (\<forall>b. Contains r b \<and> Compare b x = - 1 \<longrightarrow> \<not> eligible (addrToDomain ps) dl b) \<and>
            scanRanges (addrToDomain ps) dl ipset = Some (Inr (candidate (addrToDomain ps) x))"
  then obtain pre r post x where split: "ipset = pre @ r # post"
    and pre: "\<forall>p\<in>set pre. \<forall>a. Contains p a \<longrightarrow> \<not> eligible (addrToDomain ps) dl a"
    and x: "Contains r x" "eligible (addrToDomain ps) dl x"
    and xmin: "\<forall>b. Contains r b \<and> Compare b x = - 1 \<longrightarrow> \<not> eligible (addrToDomain ps) dl b"
    and res: "scanRanges (addrToDomain ps) dl ipset = Some (Inr (candidate (addrToDomain ps) x))"
    by blast
  have vr: "validRange r" using wf split by simp
  have low: "\<forall>q\<in>set ipset. \<forall>b. Contains q b \<and> eligible (addrToDomain ps) dl b \<longrightarrow> Compare x b \<noteq> 1"
  proof (intro ballI allI impI)
    fix q b assume q: "q \<in> set ipset" and b: "Contains q b \<and> eligible (addrToDomain ps) dl b"
    with pre split have "q = r \<or> q \<in> set post" by auto
    then show "Compare x b \<noteq> 1"
    proof
      assume "q = r"
      with b xmin have "Compare b x \<noteq> - 1" by blast
      then show ?thesis by (rule Compare_not_less)
    next
      assume qp: "q \<in> set post"
      have "ascending (r # post)" using asc split ascending_append by blast
      moreover have "\<forall>q\<in>set (r # post). validRange q" using wf split by simp
      ultimately have "Compare (snd r) b = - 1" using qp b by (intro ascending_later[of r post q b]) simp_all
      moreover have "Compare x (snd r) \<noteq> 1" using Contains_bounds[OF vr x(1)] by simp
      ultimately have "Compare x b = - 1" by (intro Compare_le_less_trans[of x "snd r" b])
      then show ?thesis by simp
    qed
  qed
  have "\<exists>r\<in>set ipset. Contains r x" using split x by auto
  with res x low show ?thesis by (auto simp: unusedIPV4_def)
qed

lemma demo_range_all: "Contains (V4 1, V4 2) a \<Longrightarrow> a = V4 1 \<or> a = V4 2"
  using demo_range_other by blast

theorem unusedIPV4_first_fit_witness:
  "validRange (V4 1, V4 2) \<and> \<not> endsAtTop (V4 1, V4 2) \<and> ascending [(V4 1, V4 2)] \<and>
   unusedIPV4 demoPeerAB [(V4 1, V4 2)] 5 = Some (Inl (Error ''ip pool exhausted'')) \<and>
   unusedIPV4 demoPeerAB [(V4 1, V4 2)] 50 = Some (Inr (V4 1, True, ''a.example''))"
proof -
  have wf: "\<forall>r\<in>set [(V4 1, V4 2)]. validRange r \<and> \<not> endsAtTop r"
    by (simp add: endsAtTop_def)
  have asc: "ascending [(V4 1, V4 2)]" by simp
  have e1: "\<not> eligible (addrToDomain demoPeerAB) 5 (V4 1)" "\<not> eligible (addrToDomain demoPeerAB) 5 (V4 2)"
    by (simp_all add: eligible_def demoAB_facts Before_def)
  have e2: "eligible (addrToDomain demoPeerAB) 50 (V4 1)" "\<not> eligible (addrToDomain demoPeerAB) 50 (V4 2)"
    by (simp_all add: eligible_def demoAB_facts Before_def)
  have none: "\<And>x. (\<exists>r\<in>set [(V4 1, V4 2)]. Contains r x) \<Longrightarrow> \<not> eligible (addrToDomain demoPeerAB) 5 x"
    using demo_range_all e1 by auto
  from unusedIPV4_first_fit[OF wf asc, of demoPeerAB 5] none
  have r1: "unusedIPV4 demoPeerAB [(V4 1, V4 2)] 5 = Some (Inl (Error ''ip pool exhausted''))"
    by blast
  have some: "Contains (V4 1, V4 2) (V4 1)" by simp
  from unusedIPV4_first_fit[OF wf asc, of demoPeerAB 50] some e2(1)
  obtain x where x: "unusedIPV4 demoPeerAB [(V4 1, V4 2)] 50 = Some (Inr (candidate (addrToDomain demoPeerAB) x))"
    "\<exists>r\<in>set [(V4 1, V4 2)]. Contains r x" "eligible (addrToDomain demoPeerAB) 50 x"
    by auto
  from x(2,3) demo_range_all e2(2) have "x = V4 1" by auto
  with x(1) have r2: "unusedIPV4 demoPeerAB [(V4 1, V4 2)] 50 = Some (Inr (V4 1, True, ''a.example''))"
    by (simp add: candidate_def demoAB_facts)
  from wf asc r1 r2 show ?thesis by simp
qed

text \<open>
  Termination. When the ranges of the address set are valid and none ends at the last address of
  its family, every checkout returns: the scan does not run forever.
\<close>

theorem checkout_returns:
  assumes wf: "\<forall>r\<in>set (IPSet ipp). validRange r \<and> \<not> endsAtTop r"
  shows "\<exists>ipp' r. applyCheckoutAddr ipp nid domain reuseDeadline updatedAt = Some (ipp', r)"
proof -
  have scan: "\<And>ps. \<exists>res. unusedIPV4 ps (IPSet ipp) reuseDeadline = Some res"
    using scanRanges_cases[OF wf] unfolding unusedIPV4_def by blast
  have alloc: "\<And>(i::ConsensusIPPool) ps. IPSet i = IPSet ipp \<Longrightarrow> \<exists>res. allocateAddr i nid ps domain reuseDeadline updatedAt = Some res"
  proof -
    fix i :: ConsensusIPPool and ps assume "IPSet i = IPSet ipp"
    with scan[of ps] obtain res where "unusedIPV4 ps (IPSet i) reuseDeadline = Some res" by auto
    then show "\<exists>res. allocateAddr i nid ps domain reuseDeadline updatedAt = Some res"
      by (cases res) (auto simp: allocateAddr_def Let_def split: prod.splits)
  qed
  have "\<exists>res. applyCheckoutAddr ipp nid domain reuseDeadline updatedAt = Some res"
  proof (cases "perPeerMap ipp nid")
    case None
    then show ?thesis
      using alloc[of "storePeer ipp nid emptyPeerState" emptyPeerState]
      by (simp add: applyCheckoutAddr_unseen storePeer_def)
  next
    case (Some ps)
    then show ?thesis
      using alloc[of ipp ps]
      by (auto simp: applyCheckoutAddr_def split: option.splits)
  qed
  then show ?thesis by auto
qed

theorem checkout_returns_witness:
  "validRange (V4 1, V4 2) \<and> \<not> endsAtTop (V4 1, V4 2) \<and>
   (\<exists>ipp' r. applyCheckoutAddr demoPoolAB 7 ''c.example'' 0 150 = Some (ipp', r))"
proof -
  have wf: "\<forall>r\<in>set (IPSet demoPoolAB). validRange r \<and> \<not> endsAtTop r"
    by (simp add: demoAB_facts endsAtTop_def)
  from checkout_returns[OF wf, of 7 "''c.example''" 0 150] wf show ?thesis
    by (simp add: demoAB_facts)
qed

text \<open>
  No double allocation. In a reachable pool no peer maps two domains to one address.
\<close>

theorem no_double_allocation:
  assumes "reachable ipp" and "perPeerMap ipp nid = Some ps"
    and "domainToAddr ps d1 = Some a" and "domainToAddr ps d2 = Some a"
  shows "d1 = d2"
proof -
  from assms(1) have "poolBijection ipp" by (rule reachable_poolBijection)
  with assms(2) have inv: "peerBijection ps" unfolding poolBijection_def by blast
  from peerBijection_forward[OF inv assms(3)] peerBijection_forward[OF inv assms(4)]
  show ?thesis by auto
qed

theorem no_double_allocation_witness:
  "reachable demoPoolA \<and> perPeerMap demoPoolA 7 = Some demoPeerA \<and>
   domainToAddr demoPeerA ''a.example'' = Some (V4 1) \<and> domainToAddr demoPeerA ''b.example'' \<noteq> Some (V4 1)"
proof -
  have "reachable demoPool"
    by (rule reachable.init) (simp add: demoPool_def NewConsensusIPPool_def)
  then have r: "reachable demoPoolA"
    unfolding demoPoolA_def using demo_checkout_a by (rule reachable.checkout)
  have p: "perPeerMap demoPoolA 7 = Some demoPeerA"
    by (simp add: demoPoolA_def storePeer_def)
  have d: "domainToAddr demoPeerA ''a.example'' = Some (V4 1)"
    by (simp add: demoPeerA_def)
  have "domainToAddr demoPeerA ''b.example'' \<noteq> Some (V4 1)"
  proof
    assume "domainToAddr demoPeerA ''b.example'' = Some (V4 1)"
    from no_double_allocation[OF r p this d] show False by simp
  qed
  with r p d show ?thesis by simp
qed

text \<open>
  A run of the pool of two addresses, step by step: the first domain of peer 7 gets 0.0.0.1,
  the second 0.0.0.2, a third is refused while both are fresh, and gets 0.0.0.1 once
  the deadline has passed the first one's timestamp; resolving 0.0.0.1 then returns the
  third domain.
\<close>

theorem end_to_end_scenario:
  "applyCheckoutAddr demoPool 7 ''a.example'' 0 10 = Some (demoPoolA, Inr (V4 1)) \<and>
   applyCheckoutAddr demoPoolA 7 ''b.example'' 0 100 = Some (demoPoolAB, Inr (V4 2)) \<and>
   applyCheckoutAddr demoPoolAB 7 ''c.example'' 0 150 = Some (demoPoolAB, Inl (Error ''ip pool exhausted'')) \<and>
   applyCheckoutAddr demoPoolAB 7 ''c.example'' 50 200 =
     Some (storePeer demoPool 7
             \<lparr>domainToAddr = [''b.example'' \<mapsto> V4 2, ''c.example'' \<mapsto> V4 1],
              addrToDomain = [V4 1 \<mapsto> \<lparr>Domain' = ''c.example'', LastUsed = 200\<rparr>,
                              V4 2 \<mapsto> \<lparr>Domain' = ''b.example'', LastUsed = 100\<rparr>]\<rparr>,
           Inr (V4 1)) \<and>
   fst (DomainForIP demoCodec
          (\<lambda>t. storePeer demoPool 7
             \<lparr>domainToAddr = [''b.example'' \<mapsto> V4 2, ''c.example'' \<mapsto> V4 1],
              addrToDomain = [V4 1 \<mapsto> \<lparr>Domain' = ''c.example'', LastUsed = 200\<rparr>,
                              V4 2 \<mapsto> \<lparr>Domain' = ''b.example'', LastUsed = 100\<rparr>]\<rparr>)
          7 (V4 1) 300) = (''c.example'', True)"
proof -
  have 1: "applyCheckoutAddr demoPool 7 ''a.example'' 0 10 = Some (demoPoolA, Inr (V4 1))"
    by (simp add: demo_checkout_a demoPoolA_def)
  have 2: "applyCheckoutAddr demoPoolA 7 ''b.example'' 0 100 = Some (demoPoolAB, Inr (V4 2))"
    by (simp add: applyCheckoutAddr_def demoPoolA_def demoPoolAB_def storePeer_def demoPeerA_def
        demoPeerAB_def demoPool_def NewConsensusIPPool_def allocateAddr_def unusedIPV4_def
        scanRange.simps[of _ _ _ "V4 1"] scanRange.simps[of _ _ _ "V4 2"] Before_def)
  have 3: "applyCheckoutAddr demoPoolAB 7 ''c.example'' 0 150 = Some (demoPoolAB, Inl (Error ''ip pool exhausted''))"
    by (simp add: applyCheckoutAddr_def demoAB_facts allocateAddr_def unusedIPV4_def
        scanRange.simps[of _ _ _ "V4 1"] scanRange.simps[of _ _ _ "V4 2"] scanRange.simps[of _ _ _ "V4 3"]
        Before_def)
  have 4: "applyCheckoutAddr demoPoolAB 7 ''c.example'' 50 200 =
     Some (storePeer demoPool 7
             \<lparr>domainToAddr = [''b.example'' \<mapsto> V4 2, ''c.example'' \<mapsto> V4 1],
              addrToDomain = [V4 1 \<mapsto> \<lparr>Domain' = ''c.example'', LastUsed = 200\<rparr>,
                              V4 2 \<mapsto> \<lparr>Domain' = ''b.example'', LastUsed = 100\<rparr>]\<rparr>,
           Inr (V4 1))"
    by (simp add: applyCheckoutAddr_def demoAB_facts allocateAddr_def unusedIPV4_def
        scanRange.simps[of _ _ _ "V4 1"] Before_def)
       (auto simp: demoPoolAB_def demoPeerAB_def storePeer_def fun_upd_twist[of "V4 2" "V4 1"])
  have 5: "fst (DomainForIP demoCodec
          (\<lambda>t. storePeer demoPool 7
             \<lparr>domainToAddr = [''b.example'' \<mapsto> V4 2, ''c.example'' \<mapsto> V4 1],
              addrToDomain = [V4 1 \<mapsto> \<lparr>Domain' = ''c.example'', LastUsed = 200\<rparr>,
                              V4 2 \<mapsto> \<lparr>Domain' = ''b.example'', LastUsed = 100\<rparr>]\<rparr>)
          7 (V4 1) 300) = (''c.example'', True)"
    by (simp add: DomainForIP_def retryDomainLookup.simps storePeer_def)
  from 1 2 3 4 5 show ?thesis by simp
qed

section \<open>The dispatcher stays among the reachable pools\<close>

text \<open>
  The dispatcher changes the pool through the two commands only, so a replay that
  returns ends in a reachable pool, where the bijection holds.
\<close>

lemma Apply_reachable:
  assumes "reachable ipp" and "Apply c ipp l = Some (Returns (ipp', r))"
  shows "reachable ipp'"
proof (cases "unmarshalCommand c l")
  case (Inl err)
  with assms(2) show ?thesis by (simp add: Apply_def)
next
  case (Inr cmd)
  show ?thesis
  proof (cases "Name cmd = ''checkoutAddr''")
    case True
    with Inr assms(2) have ex: "executeCheckoutAddr c ipp (Args cmd) = Some (ipp', r)"
      by (auto simp: Apply_def)
    show ?thesis
    proof (cases "unmarshalCheckoutAddrArgs c (Args cmd)")
      case (Inl err)
      with ex assms(1) show ?thesis by (simp add: executeCheckoutAddr_def)
    next
      case (Inr args)
      with ex obtain res where
        "applyCheckoutAddr ipp (co_NodeID args) (co_Domain args) (co_ReuseDeadline args) (co_UpdatedAt args) =
           Some (ipp', res)"
        by (auto simp: executeCheckoutAddr_def split: option.splits sum.splits prod.splits)
      with assms(1) show ?thesis by (rule reachable.checkout)
    qed
  next
    case False
    with Inr assms(2) have mk: "Name cmd = ''markLastUsed''" "executeMarkLastUsed c ipp (Args cmd) = (ipp', r)"
      by (auto simp: Apply_def split: if_splits)
    show ?thesis
    proof (cases "unmarshalMarkLastUsedArgs c (Args cmd)")
      case (Inl err)
      with mk assms(1) show ?thesis by (simp add: executeMarkLastUsed_def)
    next
      case (Inr args)
      with mk obtain e where
        "applyMarkLastUsed ipp (mlu_NodeID args) (mlu_Addr args) (mlu_Domain args) (mlu_UpdatedAt args) = (ipp', e)"
        by (auto simp: executeMarkLastUsed_def split: option.splits prod.splits)
      with assms(1) show ?thesis by (rule reachable.mark)
    qed
  qed
qed

lemma replay_reachable:
  "reachable ipp \<Longrightarrow> replay c ipp log = Some (Returns (ipp', rs)) \<Longrightarrow> reachable ipp'"
proof (induction log arbitrary: ipp rs)
  case Nil
  then show ?case by simp
next
  case (Cons l log)
  from Cons.prems(2) obtain ipp1 r rs1 where
    step: "Apply c ipp l = Some (Returns (ipp1, r))" and rest: "replay c ipp1 log = Some (Returns (ipp', rs1))"
    by (auto split: option.splits exec.splits prod.splits)
  from Apply_reachable[OF Cons.prems(1) step] have "reachable ipp1" .
  from Cons.IH[OF this rest] show ?case .
qed

lemma replay_bijection:
  assumes "perPeerMap ipp = Map.empty" and "replay c ipp log = Some (Returns (ipp', rs))"
  shows "poolBijection ipp'"
proof -
  from assms(1) have "reachable ipp" by (rule reachable.init)
  from replay_reachable[OF this assms(2)] show ?thesis by (rule reachable_poolBijection)
qed

end
